theory Spec2Isabelle
  imports Complex_Main "HOL-Library.Sublist" "HOL-Library.Multiset" "HOL-Library.AList"
begin

section \<open>Strings\<close>

text \<open>
  A JavaScript string is modelled as a \<^typ>\<open>string\<close>: a list of characters, each one code
  unit in the Latin-1 range. The characters that cannot be written inside a literal get a
  name.
\<close>

abbreviation bslash :: char where "bslash \<equiv> CHR 0x5C"
abbreviation newline :: char where "newline \<equiv> CHR 0x0A"
abbreviation creturn :: char where "creturn \<equiv> CHR 0x0D"
abbreviation tabchar :: char where "tabchar \<equiv> CHR 0x09"

text \<open>
  \<^verbatim>\<open>s.replace(/pat/g, rep)\<close> for a pattern that is a literal string: the scan runs from
  the left, a match is replaced and the scan resumes behind it, so matches never overlap.
\<close>

fun replaceAll :: "string \<Rightarrow> string \<Rightarrow> string \<Rightarrow> string" where
  "replaceAll pat rep [] = []"
| "replaceAll pat rep (c # cs) =
     (if pat \<noteq> [] \<and> prefix pat (c # cs)
      then rep @ replaceAll pat rep (drop (length pat - 1) cs)
      else c # replaceAll pat rep cs)"

text \<open>\<^verbatim>\<open>s.indexOf(c)\<close> for a one-character needle; \<open>None\<close> stands for \<open>-1\<close>.\<close>

fun indexOf :: "string \<Rightarrow> char \<Rightarrow> nat option" where
  "indexOf [] c = None"
| "indexOf (x # xs) c = (if x = c then Some 0 else map_option Suc (indexOf xs c))"

text \<open>\<^verbatim>\<open>s.split(sep)\<close> for a one-character separator: never the empty list.\<close>

fun splitOn :: "char \<Rightarrow> string \<Rightarrow> string list" where
  "splitOn sep [] = [[]]"
| "splitOn sep (c # cs) =
     (if c = sep then [] # splitOn sep cs
      else (case splitOn sep cs of
              [] \<Rightarrow> [[c]]
            | w # ws \<Rightarrow> (c # w) # ws))"

text \<open>\<^verbatim>\<open>xs.join(sep)\<close>.\<close>

fun joinWith :: "string \<Rightarrow> string list \<Rightarrow> string" where
  "joinWith sep [] = []"
| "joinWith sep [x] = x"
| "joinWith sep (x # y # ys) = x @ sep @ joinWith sep (y # ys)"

text \<open>\<^verbatim>\<open>s.includes(pat)\<close>; \<^verbatim>\<open>s.startsWith(pat)\<close> is \<^term>\<open>prefix pat s\<close>.\<close>

fun includesStr :: "string \<Rightarrow> string \<Rightarrow> bool" where
  "includesStr [] pat = (pat = [])"
| "includesStr (c # cs) pat = (prefix pat (c # cs) \<or> includesStr cs pat)"

text \<open>
  \<^verbatim>\<open>s.trim()\<close>: the white space and line terminators of the language that lie in the
  modelled range (tab, line feed, vertical tab, form feed, carriage return, space,
  no-break space).
\<close>

definition isWhitespace :: "char \<Rightarrow> bool" where
  "isWhitespace c \<longleftrightarrow>
     c \<in> {tabchar, newline, CHR 0x0B, CHR 0x0C, creturn, CHR '' '', CHR 0xA0}"

definition trim :: "string \<Rightarrow> string" where
  "trim s = rev (dropWhile isWhitespace (rev (dropWhile isWhitespace s)))"

text \<open>
  \<^verbatim>\<open>xs.sort(cmp)\<close>: the sort of the language is stable, and for a consistent comparator
  every stable sort returns the same list; it is modelled as insertion sort. An element
  goes in front of the first one it does not compare greater than, so elements that compare
  equal keep their order.
\<close>

fun insertSorted :: "('a \<Rightarrow> 'a \<Rightarrow> int) \<Rightarrow> 'a \<Rightarrow> 'a list \<Rightarrow> 'a list" where
  "insertSorted cmp x [] = [x]"
| "insertSorted cmp x (y # ys) =
     (if cmp x y \<le> 0 then x # y # ys else y # insertSorted cmp x ys)"

definition jsSort :: "('a \<Rightarrow> 'a \<Rightarrow> int) \<Rightarrow> 'a list \<Rightarrow> 'a list" where
  "jsSort cmp xs = foldr (insertSorted cmp) xs []"

text \<open>
  \<^verbatim>\<open>new Set(xs)\<close>: the distinct elements in the order of their first occurrence;
  \<^verbatim>\<open>ids.has(x)\<close> is \<^term>\<open>x \<in> set ids\<close>.
\<close>

definition newSet :: "'a list \<Rightarrow> 'a list" where
  "newSet xs = fold (\<lambda>x acc. if x \<in> set acc then acc else acc @ [x]) xs []"

text \<open>
  \<^verbatim>\<open>Number(s)\<close> is a function of the platform. Its result is a \<open>jsnumber\<close>, and the
  conversion itself is a parameter \<open>toNumber\<close> of every function that calls it.
\<close>

datatype jsnumber = Finite real | PosInfinity | NegInfinity | NaN


section \<open>Response decoding\<close>

text \<open>\<^verbatim>\<open>decodeQueryValue\<close>: seven global replacements, one after the other.\<close>

definition decodeQueryValue :: "string \<Rightarrow> string" where
  "decodeQueryValue v =
     replaceAll [bslash, CHR ''t''] [tabchar]
      (replaceAll [bslash, CHR ''r''] [creturn]
        (replaceAll [bslash, CHR ''n''] [newline]
          (replaceAll [bslash, CHR ''/''] ''/''
            (replaceAll [bslash, bslash] [bslash]
              (replaceAll [bslash, CHR ''p''] ''|''
                (replaceAll [bslash, CHR ''s''] '' '' v))))))"

text \<open>
  Modelled from the spec: the encoder of the remote side, which is no part of the
  repository. The spec names the escapes that \<^verbatim>\<open>decodeValue\<close> reverses: escaped space,
  pipe, backslash, slash, and \<open>n\<close>, \<open>r\<close>, \<open>t\<close> for newline, carriage return and tab. Every
  other character stands for itself.
\<close>

fun encodeChar :: "char \<Rightarrow> string" where
  "encodeChar c =
     (if c = CHR '' '' then [bslash, CHR ''s'']
      else if c = CHR ''|'' then [bslash, CHR ''p'']
      else if c = bslash then [bslash, bslash]
      else if c = CHR ''/'' then [bslash, CHR ''/'']
      else if c = newline then [bslash, CHR ''n'']
      else if c = creturn then [bslash, CHR ''r'']
      else if c = tabchar then [bslash, CHR ''t'']
      else [c])"

definition encodeQueryValue :: "string \<Rightarrow> string" where
  "encodeQueryValue s = concat (map encodeChar s)"

text \<open>
  \<^verbatim>\<open>parsePairs\<close>: the record object is a map from keys to values; a later pair with the
  same key overwrites the earlier one. (The keys read by the program are never names of
  the object prototype.)
\<close>

definition parsePair :: "string \<Rightarrow> (string \<rightharpoonup> string) \<Rightarrow> (string \<rightharpoonup> string)" where
  "parsePair pair out =
     (if pair = [] then out
      else (case indexOf pair CHR ''='' of
              None \<Rightarrow> out(pair \<mapsto> [])
            | Some eqIndex \<Rightarrow>
                out(take eqIndex pair \<mapsto> decodeQueryValue (drop (eqIndex + 1) pair))))"

definition parsePairs :: "string \<Rightarrow> (string \<rightharpoonup> string)" where
  "parsePairs record = fold parsePair (splitOn CHR '' '' record) Map.empty"

record ActiveClient =
  clid :: string
  uid :: string
  name :: string
  channelId :: string
  channelName :: string
  inputMuted :: bool
  outputMuted :: bool
  away :: bool
  streaming :: bool
  connectedMs :: "real option"

text \<open>
  The object built by the \<^verbatim>\<open>map\<close> callback of \<^verbatim>\<open>parseClientList\<close>. A connected time
  that is absent, empty or not finite is \<^verbatim>\<open>null\<close>.
\<close>

definition toActiveClient ::
  "(string \<Rightarrow> jsnumber) \<Rightarrow> (string \<rightharpoonup> string) \<Rightarrow> (string \<rightharpoonup> string) \<Rightarrow> ActiveClient" where
  "toActiveClient toNumber channelNameById client =
     (let channelId = (case client ''cid'' of None \<Rightarrow> [] | Some v \<Rightarrow> v);
          connectedRaw = (case client ''client_connected_time'' of None \<Rightarrow> [] | Some v \<Rightarrow> v);
          connectedMs = (if connectedRaw \<noteq> [] then Some (toNumber connectedRaw) else None)
      in \<lparr> clid = (case client ''clid'' of None \<Rightarrow> [] | Some v \<Rightarrow> v),
           uid = (case client ''client_unique_identifier'' of
                    Some v \<Rightarrow> v
                  | None \<Rightarrow> (case client ''clid'' of None \<Rightarrow> [] | Some v \<Rightarrow> v)),
           name = (case client ''client_nickname'' of None \<Rightarrow> ''Unknown'' | Some v \<Rightarrow> v),
           channelId = channelId,
           channelName = (case channelNameById channelId of
                            None \<Rightarrow> ''Unknown channel''
                          | Some v \<Rightarrow> v),
           inputMuted = (client ''client_input_muted'' = Some ''1''
                         \<or> client ''client_input_hardware'' = Some ''0''),
           outputMuted = (client ''client_output_muted'' = Some ''1''
                          \<or> client ''client_output_hardware'' = Some ''0''),
           away = (client ''client_away'' = Some ''1''),
           streaming = (client ''client_is_streaming'' = Some ''1''
                        \<or> client ''client_is_recording'' = Some ''1''),
           connectedMs = (case connectedMs of Some (Finite x) \<Rightarrow> Some x | _ \<Rightarrow> None) \<rparr>)"

definition parseClientList ::
  "(string \<Rightarrow> jsnumber) \<Rightarrow> string \<Rightarrow> (string \<rightharpoonup> string) \<Rightarrow> ActiveClient list" where
  "parseClientList toNumber payloadLine channelNameById =
     (if payloadLine = [] \<or> prefix ''error '' payloadLine then []
      else
        (let clients = map parsePairs (splitOn CHR ''|'' payloadLine)
         in filter (\<lambda>client. name client \<noteq> [] \<and> clid client \<noteq> [] \<and> uid client \<noteq> [])
              (map (toActiveClient toNumber channelNameById)
                 (filter (\<lambda>client. client ''client_type'' = Some ''0'') clients))))"

definition findClientListPayload :: "string list \<Rightarrow> string" where
  "findClientListPayload lines =
     (case find (\<lambda>line. includesStr line ''clid='' \<and> includesStr line ''client_type='') lines of
        None \<Rightarrow> []
      | Some line \<Rightarrow> line)"


section \<open>Signature\<close>

definition effectiveAudioState :: "ActiveClient \<Rightarrow> string" where
  "effectiveAudioState client =
     (if outputMuted client then ''deafened''
      else if inputMuted client then ''muted''
      else ''unmuted'')"

text \<open>The string that the \<^verbatim>\<open>map\<close> callback of \<^verbatim>\<open>signatureForClients\<close> builds.\<close>

definition signatureLine :: "ActiveClient \<Rightarrow> string" where
  "signatureLine client =
     joinWith ''|''
       [uid client, name client, channelId client, effectiveAudioState client,
        if away client then ''1'' else ''0'', if streaming client then ''1'' else ''0'']"

text \<open>
  \<^verbatim>\<open>signatureForClients\<close>. The comparator \<^verbatim>\<open>a.localeCompare(b)\<close> belongs to the platform
  and is the parameter \<open>localeCompare\<close>.
\<close>

definition signatureForClients :: "(string \<Rightarrow> string \<Rightarrow> int) \<Rightarrow> ActiveClient list \<Rightarrow> string" where
  "signatureForClients localeCompare clients =
     joinWith [newline] (jsSort localeCompare (map signatureLine clients))"


section \<open>Protocol client\<close>

text \<open>
  The session of \<^verbatim>\<open>TeamSpeakSshQuery\<close>: the receive buffer, what the remote side is going
  to send, and what has been written to the stream. An \<open>event\<close> is what ends one wait for
  more data: a chunk that the data handler appends to the buffer, or the seven seconds of
  silence after which \<^verbatim>\<open>waitForMoreData\<close> throws. A remote side that has nothing more to
  send stays silent. A thrown \<^verbatim>\<open>Error\<close> is the value \<open>Inl (Error message)\<close>.
\<close>

datatype event = Data string | Silence

record session =
  buffer :: string
  incoming :: "event list"
  written :: "string list"

datatype error = Error string

text \<open>The index of the first line feed or carriage return in the buffer.\<close>

definition lineBreakIndex :: "string \<Rightarrow> nat option" where
  "lineBreakIndex buf =
     (case (indexOf buf newline, indexOf buf creturn) of
        (None, idxR) \<Rightarrow> idxR
      | (Some idxN, None) \<Rightarrow> Some idxN
      | (Some idxN, Some idxR) \<Rightarrow> Some (min idxN idxR))"

text \<open>\<^verbatim>\<open>s[i]\<close>; \<open>None\<close> stands for \<^verbatim>\<open>undefined\<close>.\<close>

definition charAt :: "string \<Rightarrow> nat \<Rightarrow> char option" where
  "charAt s i = (if i < length s then Some (s ! i) else None)"

text \<open>How much of the buffer one line takes: a two-character terminator counts as one.\<close>

definition consumeLength :: "string \<Rightarrow> nat \<Rightarrow> nat" where
  "consumeLength buf idx =
     (let first = charAt buf idx; second = charAt buf (idx + 1)
      in if (first = Some creturn \<and> second = Some newline)
            \<or> (first = Some newline \<and> second = Some creturn)
         then idx + 2 else idx + 1)"

fun eventSize :: "event \<Rightarrow> nat" where
  "eventSize (Data chunk) = Suc (length chunk)"
| "eventSize Silence = 1"

definition pendingInput :: "session \<Rightarrow> nat" where
  "pendingInput s = length (buffer s) + sum_list (map eventSize (incoming s))"

text \<open>
  The loop of \<^verbatim>\<open>readUntilErrorLine\<close>, with the lines collected so far. Each round either
  takes one line off the buffer or waits for the next event, so the loop ends: the
  characters still to be read, in the buffer and in the events to come, get fewer.
\<close>

function readLines :: "string list \<Rightarrow> session \<Rightarrow> (error + string list) \<times> session" where
  "readLines lines s =
     (case lineBreakIndex (buffer s) of
        Some idx \<Rightarrow>
          (let consume = consumeLength (buffer s) idx;
               line = trim (take idx (buffer s));
               s' = s\<lparr>buffer := drop consume (buffer s)\<rparr>;
               lines' = (if line \<noteq> [] then lines @ [line] else lines)
           in if prefix ''error id='' line then (Inr lines', s')
              else readLines lines' s')
      | None \<Rightarrow>
          (case incoming s of
             [] \<Rightarrow> (Inl (Error ''Timed out waiting for TeamSpeak query response''), s)
           | Silence # rest \<Rightarrow>
               (Inl (Error ''Timed out waiting for TeamSpeak query response''),
                s\<lparr>incoming := rest\<rparr>)
           | Data chunk # rest \<Rightarrow>
               readLines lines (s\<lparr>buffer := buffer s @ chunk, incoming := rest\<rparr>)))"
  by pat_completeness auto
termination
proof -
  have indexOf_less: "indexOf s c = Some i \<Longrightarrow> i < length s" for s c i
    by (induction s arbitrary: i) (auto split: if_splits)
  have lineBreakIndex_less: "lineBreakIndex buf = Some idx \<Longrightarrow> idx < length buf" for buf idx
    by (auto simp: lineBreakIndex_def split: option.splits dest: indexOf_less)
  show ?thesis
    by (relation "measure (\<lambda>(lines, s). pendingInput s)")
       (auto simp: pendingInput_def consumeLength_def Let_def dest: lineBreakIndex_less)
qed

definition readUntilErrorLine :: "session \<Rightarrow> (error + string list) \<times> session" where
  "readUntilErrorLine s = readLines [] s"

text \<open>
  \<^verbatim>\<open>command\<close>: the status line is the last line that contains the marker; a status other
  than \<open>"0"\<close>, an absent one included, throws.
\<close>

definition command :: "string \<Rightarrow> session \<Rightarrow> (error + string list) \<times> session" where
  "command commandText s =
     (case readUntilErrorLine (s\<lparr>written := written s @ [commandText @ [creturn, newline]]\<rparr>) of
        (Inl e, s') \<Rightarrow> (Inl e, s')
      | (Inr lines, s') \<Rightarrow>
          (let errorLine = (case find (\<lambda>line. includesStr line ''error id='') (rev lines) of
                              None \<Rightarrow> []
                            | Some line \<Rightarrow> line);
               error = parsePairs errorLine
           in if error ''id'' \<noteq> Some ''0''
              then (let msg = (case error ''msg'' of
                                 None \<Rightarrow> ''Unknown TeamSpeak query error''
                               | Some m \<Rightarrow> m)
                    in (Inl (Error (''TeamSpeak query command failed (''
                                     @ (case error ''id'' of None \<Rightarrow> ''undefined'' | Some i \<Rightarrow> i)
                                     @ ''): '' @ msg)), s'))
              else (Inr (butlast lines), s')))"


section \<open>Snapshot builder\<close>

text \<open>
  The body of the \<^verbatim>\<open>try\<close> block of \<^verbatim>\<open>fillConnectedTimes\<close> once the lookup has
  returned its lines: the record \<^verbatim>\<open>info\<close>, the number \<^verbatim>\<open>ms\<close>, and the two assignments.
\<close>

definition clientInfoRecord :: "string list \<Rightarrow> (string \<rightharpoonup> string)" where
  "clientInfoRecord infoLines =
     (let payload = (case find (\<lambda>line. includesStr line ''client_type='') infoLines of
                       Some line \<Rightarrow> line
                     | None \<Rightarrow> (case infoLines of [] \<Rightarrow> [] | line # _ \<Rightarrow> line))
      in parsePairs payload)"

definition clientInfoMs :: "(string \<Rightarrow> jsnumber) \<Rightarrow> (string \<rightharpoonup> string) \<Rightarrow> jsnumber" where
  "clientInfoMs toNumber info =
     (let raw = (case info ''connection_connected_time'' of
                   Some v \<Rightarrow> v
                 | None \<Rightarrow> (case info ''client_connected_time'' of None \<Rightarrow> [] | Some v \<Rightarrow> v))
      in if raw \<noteq> [] then toNumber raw else NaN)"

definition refineClient :: "(string \<Rightarrow> jsnumber) \<Rightarrow> ActiveClient \<Rightarrow> string list \<Rightarrow> ActiveClient" where
  "refineClient toNumber client infoLines =
     (let info = clientInfoRecord infoLines;
          ms = clientInfoMs toNumber info;
          client' = (case ms of
                       Finite x \<Rightarrow> if x \<ge> 0 then client\<lparr>connectedMs := Some x\<rparr> else client
                     | _ \<Rightarrow> client)
      in client'\<lparr>streaming := (info ''client_is_streaming'' = Some ''1''
                                \<or> info ''client_is_recording'' = Some ''1'')\<rparr>)"

text \<open>
  \<^verbatim>\<open>fillConnectedTimes\<close>: one lookup per client on the same session; a lookup that throws
  leaves its client as it is, and the loop goes on with the session as the lookup left it.
\<close>

fun fillConnectedTimes ::
  "(string \<Rightarrow> jsnumber) \<Rightarrow> session \<Rightarrow> ActiveClient list \<Rightarrow> ActiveClient list \<times> session" where
  "fillConnectedTimes toNumber query [] = ([], query)"
| "fillConnectedTimes toNumber query (client # clients) =
     (case command (''clientinfo clid='' @ clid client) query of
        (Inr infoLines, query') \<Rightarrow>
          (case fillConnectedTimes toNumber query' clients of
             (clients', query'') \<Rightarrow> (refineClient toNumber client infoLines # clients', query''))
      | (Inl e, query') \<Rightarrow>
          (case fillConnectedTimes toNumber query' clients of
             (clients', query'') \<Rightarrow> (client # clients', query'')))"


section \<open>Change tracking\<close>

record ServerSnapshot =
  serverName :: string
  clients :: "ActiveClient list"

record RecentlyLeftEntry =
  leftName :: string
  leftAt :: int

text \<open>
  The module-level variables that \<^verbatim>\<open>syncLoop\<close> reads and writes. The two \<^verbatim>\<open>Map\<close>s are
  association lists in insertion order; \<^verbatim>\<open>lastClientIds\<close> is \<^verbatim>\<open>null\<close> before the first
  complete round. Times are milliseconds.
\<close>

record tracker =
  lastPublishedSignature :: "string option"
  lastPublishedAt :: int
  lastClientIds :: "string list option"
  recentlyLeft :: "(string \<times> RecentlyLeftEntry) list"
  lastKnownNames :: "(string \<times> string) list"

definition RECENTLY_LEFT_WINDOW_MS :: int where
  "RECENTLY_LEFT_WINDOW_MS = 30 * 60 * 1000"

definition forcedRefreshMs :: int where
  "forcedRefreshMs = 30000"

text \<open>
  How one round of \<^verbatim>\<open>syncLoop\<close> ends once the snapshot is there: the status message was
  updated, with the names of those who joined; \<^verbatim>\<open>updateDiscordMessage\<close> threw; or nothing
  was to be published.
\<close>

datatype outcome = Published "string list" | PublishFailed | Skipped

text \<open>The three loops of \<^verbatim>\<open>syncLoop\<close> over the clients, the previous ids and the departures.\<close>

definition rememberNames :: "ActiveClient list \<Rightarrow> (string \<times> string) list \<Rightarrow> (string \<times> string) list" where
  "rememberNames activeClients names =
     fold (\<lambda>client. AList.update (uid client) (name client)) activeClients names"

definition recordDepartures ::
  "string list \<Rightarrow> string list \<Rightarrow> (string \<times> string) list \<Rightarrow> int
     \<Rightarrow> (string \<times> RecentlyLeftEntry) list \<Rightarrow> (string \<times> RecentlyLeftEntry) list" where
  "recordDepartures previousIds currentIds names now left =
     fold (\<lambda>prevId left.
             if prevId \<notin> set currentIds
             then AList.update prevId
                    \<lparr> leftName = (case map_of names prevId of None \<Rightarrow> ''Unknown'' | Some n \<Rightarrow> n),
                      leftAt = now \<rparr> left
             else left)
          previousIds left"

definition pruneRecentlyLeft ::
  "string list \<Rightarrow> int \<Rightarrow> (string \<times> RecentlyLeftEntry) list \<Rightarrow> (string \<times> RecentlyLeftEntry) list" where
  "pruneRecentlyLeft currentIds now left =
     fold (\<lambda>id left.
             case map_of left id of
               None \<Rightarrow> left
             | Some record \<Rightarrow>
                 if id \<in> set currentIds \<or> now - leftAt record > RECENTLY_LEFT_WINDOW_MS
                 then AList.delete id left
                 else left)
          (map fst left) left"

text \<open>
  The body of the \<^verbatim>\<open>try\<close> block of \<^verbatim>\<open>syncLoop\<close> behind \<^verbatim>\<open>fetchServerSnapshot\<close>.
  \<open>publishOk\<close> tells whether \<^verbatim>\<open>updateDiscordMessage\<close> returns; when it throws, the
  \<^verbatim>\<open>catch\<close> block leaves the variables as they are at that point.
\<close>

definition syncStep ::
  "(string \<Rightarrow> string \<Rightarrow> int) \<Rightarrow> ServerSnapshot \<Rightarrow> int \<Rightarrow> bool \<Rightarrow> tracker \<Rightarrow> tracker \<times> outcome" where
  "syncStep localeCompare snapshot now publishOk st =
     (let activeClients = jsSort (\<lambda>a b. localeCompare (name a) (name b)) (clients snapshot);
          signature = signatureForClients localeCompare activeClients;
          currentIds = newSet (map uid activeClients);
          previousIds = lastClientIds st;
          joinedNames = (case previousIds of
                           None \<Rightarrow> []
                         | Some prev \<Rightarrow> map name (filter (\<lambda>client. uid client \<notin> set prev) activeClients));
          names = rememberNames activeClients (lastKnownNames st);
          departed = (case previousIds of
                        None \<Rightarrow> recentlyLeft st
                      | Some prev \<Rightarrow> recordDepartures prev currentIds names now (recentlyLeft st));
          st1 = st\<lparr>lastKnownNames := names,
                   recentlyLeft := pruneRecentlyLeft currentIds now departed\<rparr>
      in if Some signature \<noteq> lastPublishedSignature st
            \<or> now - lastPublishedAt st \<ge> forcedRefreshMs
         then (if publishOk
               then (st1\<lparr>lastPublishedSignature := Some signature,
                          lastPublishedAt := now,
                          lastClientIds := Some currentIds\<rparr>, Published joinedNames)
               else (st1, PublishFailed))
         else (st1\<lparr>lastClientIds := Some currentIds\<rparr>, Skipped))"


section \<open>Auxiliary definitions\<close>

text \<open>
  A comparator to run the functions with: it compares code unit by code unit. (The order
  of \<^verbatim>\<open>localeCompare\<close> itself is the collation of the locale.)
\<close>

fun codeUnitCompare :: "string \<Rightarrow> string \<Rightarrow> int" where
  "codeUnitCompare [] [] = 0"
| "codeUnitCompare [] (y # ys) = -1"
| "codeUnitCompare (x # xs) [] = 1"
| "codeUnitCompare (x # xs) (y # ys) =
     (if x = y then codeUnitCompare xs ys
      else if (of_char x :: nat) < of_char y then -1 else 1)"




text \<open>What a signature shows of one client.\<close>

definition displayed :: "ActiveClient \<Rightarrow> string \<times> string \<times> string \<times> string \<times> bool \<times> bool" where
  "displayed client =
     (uid client, name client, channelId client, effectiveAudioState client,
      away client, streaming client)"

text \<open>
  A client whose line can be read back from a signature: no line feed in the name and no
  pipe in the unique id or the channel id.
\<close>

definition separable :: "ActiveClient \<Rightarrow> bool" where
  "separable client \<longleftrightarrow>
     newline \<notin> set (name client)
     \<and> CHR ''|'' \<notin> set (uid client) \<union> set (channelId client)"

text \<open>
  What stands behind a line in a reversed signature: nothing, or a line feed and the
  start of the reversed line before, which is one character of a flag and a pipe.
\<close>

definition followsLine :: "string \<Rightarrow> bool" where
  "followsLine X \<longleftrightarrow>
     X = [] \<or> (\<exists>x rest. X = newline # x # CHR ''|'' # rest \<and> x \<noteq> CHR ''|'')"

text \<open>The characters that the escaping scheme escapes, and the letter that stands for each.\<close>

definition escapable :: "char set" where
  "escapable = {CHR '' '', CHR ''|'', bslash, CHR ''/'', newline, creturn, tabchar}"

fun escapeCode :: "char \<Rightarrow> char" where
  "escapeCode c =
     (if c = CHR '' '' then CHR ''s''
      else if c = CHR ''|'' then CHR ''p''
      else if c = newline then CHR ''n''
      else if c = creturn then CHR ''r''
      else if c = tabchar then CHR ''t''
      else c)"

text \<open>
  A string in which the characters of \<open>E\<close> are escaped and all others are not: what the
  decoder holds between two of its replacements.
\<close>

definition partlyEncoded :: "char set \<Rightarrow> string \<Rightarrow> string" where
  "partlyEncoded E s = concat (map (\<lambda>c. if c \<in> E then [bslash, escapeCode c] else [c]) s)"

text \<open>A client to run the functions with: the fields that a signature shows are the arguments.\<close>

definition sampleClient ::
  "string \<Rightarrow> string \<Rightarrow> string \<Rightarrow> bool \<Rightarrow> bool \<Rightarrow> bool \<Rightarrow> bool \<Rightarrow> ActiveClient" where
  "sampleClient u n c im om aw st =
     \<lparr> clid = ''7'', uid = u, name = n, channelId = c, channelName = ''Lobby'',
       inputMuted = im, outputMuted = om, away = aw, streaming = st, connectedMs = None \<rparr>"

text \<open>
  A client list payload to run the parser with: a user with an escaped space in the name,
  a query client, and a user whose nickname is empty.
\<close>

definition samplePayload :: string where
  "samplePayload =
     ''clid=1 cid=5 client_type=0 client_nickname=Ann'' @ [bslash] @ ''sB client_unique_identifier=u1'' @
     ''|clid=2 cid=5 client_type=1 client_nickname=serveradmin'' @
     ''|clid=3 cid=5 client_type=0 client_nickname''"

text \<open>
  Sessions to run the protocol client with. In the first the remote side answers one
  command in two chunks, behind a line that was still in the buffer. In the second it
  reports an error. In the third it sends a line that has the look of a status line but
  no \<open>id\<close>, and then nothing.
\<close>

definition sessionOk :: session where
  "sessionOk =
     \<lparr> buffer = ''junk'' @ [newline],
       incoming = [Data (''virtualserver_name=My'' @ [bslash] @ ''sServer'' @ [creturn, newline] @ ''err''),
                   Data (''or id=0 msg=ok'' @ [newline, creturn] @ ''rest'')],
       written = [] \<rparr>"

definition sessionError :: session where
  "sessionError =
     \<lparr> buffer = [],
       incoming = [Data (''error id=1024 msg=invalid'' @ [bslash] @ ''sserverID'' @ [newline])],
       written = [] \<rparr>"

definition sessionNoId :: session where
  "sessionNoId =
     \<lparr> buffer = [], incoming = [Data (''error msg=ok'' @ [newline]), Silence], written = [] \<rparr>"

text \<open>
  A session for two detail lookups: the first is answered with an error, the second with
  a record that has a connected time and neither of the two streaming fields.
\<close>

definition sessionLookups :: session where
  "sessionLookups =
     \<lparr> buffer = [],
       incoming = [Data (''error id=512 msg=invalid'' @ [bslash] @ ''sclientID'' @ [newline]),
                   Data (''client_type=0 connection_connected_time=5000'' @ [newline]
                         @ ''error id=0 msg=ok'' @ [newline])],
       written = [] \<rparr>"

text \<open>A conversion to run with: it knows the one numeral of the session above.\<close>

definition sampleNumber :: "string \<Rightarrow> jsnumber" where
  "sampleNumber s = (if s = ''5000'' then Finite 5000 else NaN)"

text \<open>
  The tracker as \<^verbatim>\<open>clearStatusChannel\<close> leaves it at startup, a snapshot with one client,
  and a tracker that remembers two departures at time \<open>0\<close> while one other client was
  present in the round before.
\<close>

definition trackerInit :: tracker where
  "trackerInit =
     \<lparr> lastPublishedSignature = None, lastPublishedAt = 0, lastClientIds = None,
       recentlyLeft = [], lastKnownNames = [] \<rparr>"

definition snapshotOf :: "ActiveClient list \<Rightarrow> ServerSnapshot" where
  "snapshotOf cs = \<lparr> serverName = ''TeamSpeak'', clients = cs \<rparr>"

definition trackerDeparted :: tracker where
  "trackerDeparted =
     \<lparr> lastPublishedSignature = None, lastPublishedAt = 0, lastClientIds = Some [''u2''],
       recentlyLeft = [(''u1'', \<lparr> leftName = ''Ann'', leftAt = 0 \<rparr>),
                       (''u3'', \<lparr> leftName = ''Cid'', leftAt = 0 \<rparr>)],
       lastKnownNames = [(''u1'', ''Ann''), (''u2'', ''Bob''), (''u3'', ''Cid'')] \<rparr>"


section \<open>Escape decoding\<close>

lemma replaceAll_skip:
  "c \<noteq> a \<Longrightarrow> replaceAll [a, b] r (c # cs) = c # replaceAll [a, b] r cs"
  by simp

lemma replaceAll_hit:
  "replaceAll [a, b] r (a # b # cs) = r @ replaceAll [a, b] r cs"
  by simp

lemma replaceAll_miss:
  "\<not> prefix [b] cs \<Longrightarrow> replaceAll [a, b] r (a # cs) = a # replaceAll [a, b] r cs"
  by simp

lemma partlyEncoded_Nil: "partlyEncoded E [] = []"
  by (simp add: partlyEncoded_def)

lemma partlyEncoded_Cons:
  "partlyEncoded E (c # s) = (if c \<in> E then [bslash, escapeCode c] else [c]) @ partlyEncoded E s"
  by (simp add: partlyEncoded_def)

lemma escapeCode_inj:
  "a \<in> escapable \<Longrightarrow> b \<in> escapable \<Longrightarrow> escapeCode a = escapeCode b \<Longrightarrow> a = b"
  by (auto simp: escapable_def split: if_splits)

lemma escapeCode_bslash: "escapeCode t = bslash \<longleftrightarrow> t = bslash"
  by (auto split: if_splits)

declare escapeCode.simps [simp del]

text \<open>
  A partly encoded string starts with a backslash or with a character that is no longer
  escaped.
\<close>

lemma partlyEncoded_start:
  "set s \<subseteq> escapable \<Longrightarrow> x \<noteq> bslash \<Longrightarrow> x \<notin> escapable - E \<Longrightarrow> \<not> prefix [x] (partlyEncoded E s)"
  by (cases s) (auto simp: partlyEncoded_Cons partlyEncoded_Nil)

text \<open>
  One replacement of the decoder removes one escape and leaves the others alone, as long
  as the letter of the escape is not a character that already stands unescaped in the
  string.
\<close>

lemma replaceAll_stage:
  assumes "set s \<subseteq> escapable" "t \<in> E" "E \<subseteq> escapable"
    and "t = bslash \<or> (escapeCode t \<notin> escapable - E)"
  shows "replaceAll [bslash, escapeCode t] [t] (partlyEncoded E s) = partlyEncoded (E - {t}) s"
  using assms(1)
proof (induction s)
  case Nil
  then show ?case by (simp add: partlyEncoded_Nil)
next
  case (Cons c s)
  let ?R = "replaceAll [bslash, escapeCode t] [t]"
  from Cons have IH: "?R (partlyEncoded E s) = partlyEncoded (E - {t}) s"
    and s: "set s \<subseteq> escapable" and c: "c \<in> escapable" by auto
  have t: "t \<in> escapable" using assms(2,3) by auto
  have start: "\<not> prefix [escapeCode t] (partlyEncoded E s)" if "t \<noteq> bslash"
    using that assms(4) s by (intro partlyEncoded_start) (auto simp: escapeCode_bslash)
  show ?case
  proof (cases "c \<in> E")
    case False
    show ?thesis
    proof (cases "c = bslash")
      case True
      with False assms(2) have "t \<noteq> bslash" by auto
      from start[OF this] True False IH show ?thesis
        by (simp only: partlyEncoded_Cons replaceAll_miss if_False append.simps Diff_iff simp_thms)
    next
      case neq: False
      with False IH show ?thesis
        by (simp only: partlyEncoded_Cons replaceAll_skip if_False append.simps Diff_iff simp_thms)
    qed
  next
    case True
    show ?thesis
    proof (cases "c = t")
      case ct: True
      have "partlyEncoded E (c # s) = bslash # escapeCode t # partlyEncoded E s"
        using True ct by (simp only: partlyEncoded_Cons if_True append.simps)
      moreover have "partlyEncoded (E - {t}) (c # s) = t # partlyEncoded (E - {t}) s"
        using ct by (simp only: partlyEncoded_Cons Diff_iff singletonI simp_thms if_False append.simps)
      moreover have "?R (bslash # escapeCode t # partlyEncoded E s) = t # ?R (partlyEncoded E s)"
        by (simp only: replaceAll_hit append.simps)
      ultimately show ?thesis using IH by (simp only:)
    next
      case ct: False
      then have codes: "escapeCode c \<noteq> escapeCode t"
        using escapeCode_inj[OF c t] by blast
      then have m1: "\<not> prefix [escapeCode t] (escapeCode c # partlyEncoded E s)" by simp
      moreover have "?R (escapeCode c # partlyEncoded E s) = escapeCode c # ?R (partlyEncoded E s)"
      proof (cases "c = bslash")
        case True
        then have "t \<noteq> bslash" using ct by auto
        from True have "escapeCode c = bslash" by (simp add: escapeCode_bslash)
        with start[OF \<open>t \<noteq> bslash\<close>] show ?thesis
          by (simp add: replaceAll_miss del: replaceAll.simps)
      next
        case False
        then have "escapeCode c \<noteq> bslash" by (simp add: escapeCode_bslash)
        then show ?thesis by (rule replaceAll_skip)
      qed
      ultimately show ?thesis using True ct IH m1
        by (simp add: partlyEncoded_Cons replaceAll_miss del: replaceAll.simps)
    qed
  qed
qed

lemma encode_partly: "set s \<subseteq> escapable \<Longrightarrow> encodeQueryValue s = partlyEncoded escapable s"
  by (induction s)
     (auto simp: encodeQueryValue_def partlyEncoded_def escapable_def escapeCode.simps)

lemma partlyEncoded_empty: "partlyEncoded {} s = s"
  by (induction s) (auto simp: partlyEncoded_def)

text \<open>
  C2. A string of spaces, pipes, backslashes, slashes, line feeds, carriage returns and
  tabs, encoded by the matching encoding and then decoded by the seven replacements of
  \<^verbatim>\<open>decodeQueryValue\<close> in their order, is the string itself.
\<close>

theorem decode_encode_roundtrip:
  assumes "set s \<subseteq> escapable"
  shows "decodeQueryValue (encodeQueryValue s) = s"
proof -
  let ?E0 = "escapable"
  let ?E1 = "?E0 - {CHR '' ''}"
  let ?E2 = "?E1 - {CHR ''|''}"
  let ?E3 = "?E2 - {bslash}"
  let ?E4 = "?E3 - {CHR ''/''}"
  let ?E5 = "?E4 - {newline}"
  let ?E6 = "?E5 - {creturn}"
  let ?E7 = "?E6 - {tabchar}"
  have 1: "replaceAll [bslash, CHR ''s''] '' '' (partlyEncoded ?E0 s) = partlyEncoded ?E1 s"
    using replaceAll_stage[OF assms, of "CHR '' ''" ?E0] by (simp add: escapable_def escapeCode.simps)
  have 2: "replaceAll [bslash, CHR ''p''] ''|'' (partlyEncoded ?E1 s) = partlyEncoded ?E2 s"
    using replaceAll_stage[OF assms, of "CHR ''|''" ?E1] by (simp add: escapable_def escapeCode.simps)
  have 3: "replaceAll [bslash, bslash] [bslash] (partlyEncoded ?E2 s) = partlyEncoded ?E3 s"
    using replaceAll_stage[OF assms, of bslash ?E2] by (simp add: escapable_def escapeCode.simps)
  have 4: "replaceAll [bslash, CHR ''/''] ''/'' (partlyEncoded ?E3 s) = partlyEncoded ?E4 s"
    using replaceAll_stage[OF assms, of "CHR ''/''" ?E3] by (simp add: escapable_def escapeCode.simps)
  have 5: "replaceAll [bslash, CHR ''n''] [newline] (partlyEncoded ?E4 s) = partlyEncoded ?E5 s"
    using replaceAll_stage[OF assms, of newline ?E4] by (simp add: escapable_def escapeCode.simps)
  have 6: "replaceAll [bslash, CHR ''r''] [creturn] (partlyEncoded ?E5 s) = partlyEncoded ?E6 s"
    using replaceAll_stage[OF assms, of creturn ?E5] by (simp add: escapable_def escapeCode.simps)
  have 7: "replaceAll [bslash, CHR ''t''] [tabchar] (partlyEncoded ?E6 s) = partlyEncoded ?E7 s"
    using replaceAll_stage[OF assms, of tabchar ?E6] by (simp add: escapable_def escapeCode.simps)
  have "?E7 = {}" by (auto simp: escapable_def)
  then show ?thesis
    unfolding decodeQueryValue_def encode_partly[OF assms] 1 2 3 4 5 6 7
    by (simp only: partlyEncoded_empty)
qed

theorem decode_encode_roundtrip_witness:
  "set [bslash, CHR ''/'', CHR '' '', CHR ''|'', bslash, bslash, newline, creturn, tabchar]
     \<subseteq> escapable
   \<and> encodeQueryValue [bslash, CHR ''/'', CHR '' '', CHR ''|'', bslash, bslash, newline, creturn, tabchar]
     = [bslash, bslash, bslash, CHR ''/'', bslash, CHR ''s'', bslash, CHR ''p'', bslash, bslash,
        bslash, bslash, bslash, CHR ''n'', bslash, CHR ''r'', bslash, CHR ''t'']
   \<and> decodeQueryValue
        (encodeQueryValue [bslash, CHR ''/'', CHR '' '', CHR ''|'', bslash, bslash, newline, creturn, tabchar])
     = [bslash, CHR ''/'', CHR '' '', CHR ''|'', bslash, bslash, newline, creturn, tabchar]"
proof -
  have h: "set [bslash, CHR ''/'', CHR '' '', CHR ''|'', bslash, bslash, newline, creturn, tabchar]
            \<subseteq> escapable"
    by (simp add: escapable_def)
  have e: "encodeQueryValue [bslash, CHR ''/'', CHR '' '', CHR ''|'', bslash, bslash, newline, creturn, tabchar]
     = [bslash, bslash, bslash, CHR ''/'', bslash, CHR ''s'', bslash, CHR ''p'', bslash, bslash,
        bslash, bslash, bslash, CHR ''n'', bslash, CHR ''r'', bslash, CHR ''t'']"
    by (simp add: encodeQueryValue_def)
  show ?thesis using h e decode_encode_roundtrip[OF h] by (simp only: simp_thms)
qed


section \<open>Sorting\<close>

lemma mset_insertSorted: "mset (insertSorted cmp x ys) = add_mset x (mset ys)"
  by (induction ys) auto

lemma mset_jsSort: "mset (jsSort cmp xs) = mset xs"
  by (induction xs) (auto simp: jsSort_def mset_insertSorted)










section \<open>Splitting and joining\<close>

lemma cancel_left:
  "c \<notin> set a \<Longrightarrow> c \<notin> set a' \<Longrightarrow> a @ c # r = a' @ c # r' \<Longrightarrow> a = a' \<and> r = r'"
proof (induction a arbitrary: a')
  case Nil
  then show ?case by (cases a') auto
next
  case (Cons x a)
  then show ?case by (cases a') auto
qed

lemma cancel_right:
  assumes "c \<notin> set z" "c \<notin> set z'" "x @ c # z = x' @ c # z'"
  shows "x = x' \<and> z = z'"
proof -
  from assms(3) have "rev (x @ c # z) = rev (x' @ c # z')" by simp
  then have "rev z @ c # rev x = rev z' @ c # rev x'" by simp
  with cancel_left[of c "rev z" "rev z'" "rev x" "rev x'"] assms(1,2) show ?thesis by simp
qed

lemma splitOn_nonempty: "splitOn sep s \<noteq> []"
  by (induction s) (auto split: list.splits)

lemma splitOn_free: "sep \<notin> set s \<Longrightarrow> splitOn sep s = [s]"
  by (induction s) auto

lemma splitOn_append_sep: "splitOn sep (a @ sep # b) = splitOn sep a @ splitOn sep b"
  by (induction a) (auto split: list.splits simp: splitOn_nonempty)

lemma splitOn_join:
  "L \<noteq> [] \<Longrightarrow> splitOn sep (joinWith [sep] L) = concat (map (splitOn sep) L)"
proof (induction L)
  case Nil
  then show ?case by simp
next
  case (Cons x L)
  show ?case
  proof (cases L)
    case Nil
    then show ?thesis by simp
  next
    case (Cons y ys)
    with Cons.IH have "splitOn sep (joinWith [sep] L) = concat (map (splitOn sep) L)" by simp
    with Cons show ?thesis by (simp add: splitOn_append_sep del: splitOn.simps)
  qed
qed

lemma splitOn_append_free:
  assumes "sep \<notin> set suf"
  shows "splitOn sep (p @ suf) = butlast (splitOn sep p) @ [last (splitOn sep p) @ suf]"
proof (induction p)
  case Nil
  from assms show ?case by (simp add: splitOn_free)
next
  case (Cons c p)
  obtain w ws where X: "splitOn sep p = w # ws"
    using splitOn_nonempty[of sep p] by (cases "splitOn sep p") auto
  show ?case
  proof (cases "c = sep")
    case True
    with Cons X show ?thesis by simp
  next
    case False
    show ?thesis
    proof (cases ws)
      case Nil
      with Cons X False show ?thesis by simp
    next
      case (Cons v vs)
      with Cons.IH X False show ?thesis by simp
    qed
  qed
qed

lemma joinWith_Cons:
  "joinWith sep (x # xs) = x @ (if xs = [] then [] else sep @ joinWith sep xs)"
  by (cases xs) simp_all

lemma joinWith_snoc:
  "joinWith sep (xs @ [y]) = (if xs = [] then y else joinWith sep xs @ sep @ y)"
  by (induction sep xs rule: joinWith.induct) simp_all

lemma rev_joinWith: "rev (joinWith sep xs) = joinWith (rev sep) (map rev (rev xs))"
proof (induction xs)
  case Nil
  then show ?case by simp
next
  case (Cons x xs)
  show ?case
  proof (cases "xs = []")
    case True
    then show ?thesis by simp
  next
    case False
    then have "rev (joinWith sep (x # xs)) = rev (joinWith sep xs) @ rev sep @ rev x"
      by (simp add: joinWith_Cons)
    also have "\<dots> = joinWith (rev sep) (map rev (rev xs)) @ rev sep @ rev x"
      by (simp only: Cons.IH)
    also have "\<dots> = joinWith (rev sep) (map rev (rev xs) @ [rev x])"
      using False by (simp only: joinWith_snoc) simp
    finally show ?thesis by simp
  qed
qed

lemma first_sep_prefix:
  "c \<notin> set a \<Longrightarrow> a @ c # r = b @ c # r' \<Longrightarrow> prefix a b"
proof (induction a arbitrary: b)
  case Nil
  then show ?case by simp
next
  case (Cons x a)
  then show ?case by (cases b) auto
qed

lemma list_preimage:
  "set S \<subseteq> f ` A \<Longrightarrow> \<exists>ds. set ds \<subseteq> A \<and> map f ds = S"
proof (induction S)
  case Nil
  then show ?case by simp
next
  case (Cons l S)
  then obtain ds d where "set ds \<subseteq> A" "map f ds = S" "d \<in> A" "f d = l" by auto
  then have "set (d # ds) \<subseteq> A \<and> map f (d # ds) = l # S" by simp
  then show ?case by (rule exI[of _ "d # ds"])
qed

text \<open>
  If \<open>g\<close> is determined by \<open>f\<close> on the elements of two lists, the lists that agree as
  multisets under \<open>f\<close> agree as multisets under \<open>g\<close>.
\<close>

lemma map_determined:
  assumes "\<And>x y. x \<in> A \<Longrightarrow> y \<in> A \<Longrightarrow> f x = f y \<Longrightarrow> g x = g y"
    and "set xs \<subseteq> A" "set ys \<subseteq> A" "mset (map f xs) = mset (map f ys)"
  shows "mset (map g xs) = mset (map g ys)"
proof -
  define h where "h v = g (SOME x. x \<in> A \<and> f x = v)" for v
  have h: "h (f x) = g x" if "x \<in> A" for x
  proof -
    have "(SOME z. z \<in> A \<and> f z = f x) \<in> A \<and> f (SOME z. z \<in> A \<and> f z = f x) = f x"
      using that by (intro someI[of "\<lambda>z. z \<in> A \<and> f z = f x" x]) simp
    with assms(1)[OF _ that] show ?thesis unfolding h_def by blast
  qed
  have hmap: "map g zs = map h (map f zs)" if "set zs \<subseteq> A" for zs
    using that h by (induction zs) auto
  have "mset (map g xs) = image_mset h (mset (map f xs))"
    unfolding hmap[OF assms(2)] by (rule mset_map)
  moreover have "mset (map g ys) = image_mset h (mset (map f ys))"
    unfolding hmap[OF assms(3)] by (rule mset_map)
  ultimately show ?thesis using assms(4) by simp
qed


section \<open>Signatures\<close>

lemmas eval_signature =
  signatureForClients_def jsSort_def signatureLine_def effectiveAudioState_def sampleClient_def


lemma signatureLine_parts:
  "signatureLine c =
     uid c @ CHR ''|'' # (((((name c @ CHR ''|'' # channelId c) @ CHR ''|'' # effectiveAudioState c)
        @ CHR ''|'' # (if away c then ''1'' else ''0''))
        @ CHR ''|'' # (if streaming c then ''1'' else ''0'')))"
  by (simp add: signatureLine_def)

lemma flags_suffix:
  "signatureLine c =
     (uid c @ ''|'' @ name c @ ''|'' @ channelId c @ ''|'')
     @ (effectiveAudioState c @ CHR ''|'' # (if away c then ''1'' else ''0'')
        @ CHR ''|'' # (if streaming c then ''1'' else ''0''))"
  by (simp add: signatureLine_def)

lemma audio_no_pipe: "CHR ''|'' \<notin> set (effectiveAudioState c)"
  by (simp add: effectiveAudioState_def)

text \<open>
  The line of a separable client can be read back field by field.
\<close>

lemma signatureLine_inj:
  assumes "separable c" "separable c'" "signatureLine c = signatureLine c'"
  shows "displayed c = displayed c'"
proof -
  let ?b = "\<lambda>f. if f then ''1'' else ''0''"
  have pipes: "CHR ''|'' \<notin> set (uid c)" "CHR ''|'' \<notin> set (uid c')"
    "CHR ''|'' \<notin> set (channelId c)" "CHR ''|'' \<notin> set (channelId c')"
    using assms(1,2) by (auto simp: separable_def)
  have flag: "CHR ''|'' \<notin> set (?b f)" for f by simp
  from assms(3) have eq: "uid c @ CHR ''|'' # (((((name c @ CHR ''|'' # channelId c) @ CHR ''|'' # effectiveAudioState c)
        @ CHR ''|'' # ?b (away c)) @ CHR ''|'' # ?b (streaming c)))
     = uid c' @ CHR ''|'' # (((((name c' @ CHR ''|'' # channelId c') @ CHR ''|'' # effectiveAudioState c')
        @ CHR ''|'' # ?b (away c')) @ CHR ''|'' # ?b (streaming c')))"
    by (simp only: signatureLine_parts)
  from cancel_left[OF pipes(1,2) eq] have u: "uid c = uid c'"
    and r1: "(((name c @ CHR ''|'' # channelId c) @ CHR ''|'' # effectiveAudioState c)
        @ CHR ''|'' # ?b (away c)) @ CHR ''|'' # ?b (streaming c)
      = (((name c' @ CHR ''|'' # channelId c') @ CHR ''|'' # effectiveAudioState c')
        @ CHR ''|'' # ?b (away c')) @ CHR ''|'' # ?b (streaming c')" by blast+
  from cancel_right[OF flag flag r1] have s: "?b (streaming c) = ?b (streaming c')"
    and r2: "((name c @ CHR ''|'' # channelId c) @ CHR ''|'' # effectiveAudioState c)
        @ CHR ''|'' # ?b (away c)
      = ((name c' @ CHR ''|'' # channelId c') @ CHR ''|'' # effectiveAudioState c')
        @ CHR ''|'' # ?b (away c')" by blast+
  from cancel_right[OF flag flag r2] have a: "?b (away c) = ?b (away c')"
    and r3: "(name c @ CHR ''|'' # channelId c) @ CHR ''|'' # effectiveAudioState c
      = (name c' @ CHR ''|'' # channelId c') @ CHR ''|'' # effectiveAudioState c'" by blast+
  from cancel_right[OF audio_no_pipe audio_no_pipe r3]
  have e: "effectiveAudioState c = effectiveAudioState c'"
    and r4: "name c @ CHR ''|'' # channelId c = name c' @ CHR ''|'' # channelId c'" by blast+
  from cancel_right[OF pipes(3,4) r4] have n: "name c = name c'" and ch: "channelId c = channelId c'"
    by blast+
  from s have s': "streaming c = streaming c'" by (simp split: if_splits)
  from a have a': "away c = away c'" by (simp split: if_splits)
  from u n ch e a' s' show ?thesis by (simp add: displayed_def)
qed

lemma signatureLine_nonempty: "signatureLine c \<noteq> []"
  by (simp add: signatureLine_def)

lemma flags_inj:
  assumes "effectiveAudioState c @ CHR ''|'' # (if away c then ''1'' else ''0'')
             @ CHR ''|'' # (if streaming c then ''1'' else ''0'')
         = effectiveAudioState c' @ CHR ''|'' # (if away c' then ''1'' else ''0'')
             @ CHR ''|'' # (if streaming c' then ''1'' else ''0'')"
  shows "effectiveAudioState c = effectiveAudioState c' \<and> away c = away c' \<and> streaming c = streaming c'"
proof -
  let ?b = "\<lambda>f. if f then ''1'' else ''0''"
  have flag: "CHR ''|'' \<notin> set (?b f)" for f by simp
  from cancel_left[OF audio_no_pipe audio_no_pipe assms]
  have e: "effectiveAudioState c = effectiveAudioState c'"
    and r: "?b (away c) @ CHR ''|'' # ?b (streaming c) = ?b (away c') @ CHR ''|'' # ?b (streaming c')"
    by blast+
  from cancel_left[OF flag flag r] have "?b (away c) = ?b (away c')" "?b (streaming c) = ?b (streaming c')"
    by blast+
  then have "away c = away c'" "streaming c = streaming c'" by (simp_all split: if_splits)
  with e show ?thesis by simp
qed

text \<open>
  Reading a signature back from its end. Behind the reversed name of a line stand a pipe,
  the reversed unique id, and then nothing or the line before; the name has no line feed
  and the unique id no pipe, so the three parts are determined.
\<close>

lemma no_pipe_split:
  assumes "newline \<notin> set M" "CHR ''|'' \<notin> set U" "followsLine X"
    and "U @ X = M @ CHR ''|'' # Y"
  shows False
proof (cases "X = []")
  case True
  with assms(4) have "U = M @ CHR ''|'' # Y" by simp
  then have "CHR ''|'' \<in> set U" by simp
  with assms(2) show False by simp
next
  case False
  with assms(3) obtain x rest where X: "X = newline # x # CHR ''|'' # rest" "x \<noteq> CHR ''|''"
    unfolding followsLine_def by blast
  have "(U @ [newline, x]) @ CHR ''|'' # rest = M @ CHR ''|'' # Y"
    using assms(4) X(1) by simp
  moreover have "CHR ''|'' \<notin> set (U @ [newline, x])" using assms(2) X(2) by simp
  ultimately have "prefix (U @ [newline, x]) M" by (rule first_sep_prefix[rotated])
  then have "newline \<in> set M" by (auto simp: prefix_def)
  with assms(1) show False by simp
qed

lemma name_uid_tail:
  assumes "newline \<notin> set N" "newline \<notin> set N'" "CHR ''|'' \<notin> set U" "CHR ''|'' \<notin> set U'"
    and "followsLine X" "followsLine X'"
    and "N @ CHR ''|'' # U @ X = N' @ CHR ''|'' # U' @ X'"
  shows "N = N' \<and> U = U' \<and> X = X'"
proof -
  from assms(7) obtain us where
    "(N = N' @ us \<and> us @ CHR ''|'' # U @ X = CHR ''|'' # U' @ X')
     \<or> (N @ us = N' \<and> CHR ''|'' # U @ X = us @ CHR ''|'' # U' @ X')"
    by (auto simp: append_eq_append_conv2)
  then have us: "us = []"
  proof
    assume a: "N = N' @ us \<and> us @ CHR ''|'' # U @ X = CHR ''|'' # U' @ X'"
    show ?thesis
    proof (cases us)
      case Nil
      then show ?thesis .
    next
      case (Cons z us')
      with a have "U' @ X' = us' @ CHR ''|'' # U @ X" by simp
      moreover from a Cons assms(1) have "newline \<notin> set us'" by auto
      ultimately show ?thesis using no_pipe_split[OF _ assms(4) assms(6)] by blast
    qed
  next
    assume a: "N @ us = N' \<and> CHR ''|'' # U @ X = us @ CHR ''|'' # U' @ X'"
    show ?thesis
    proof (cases us)
      case Nil
      then show ?thesis .
    next
      case (Cons z us')
      with a have "U @ X = us' @ CHR ''|'' # U' @ X'" by simp
      moreover from a Cons assms(2) have "newline \<notin> set us'" by auto
      ultimately show ?thesis using no_pipe_split[OF _ assms(3) assms(5)] by blast
    qed
  qed
  with assms(7) \<open>(N = N' @ us \<and> _) \<or> _\<close> have N: "N = N'" and Y: "U @ X = U' @ X'" by auto
  have "U = U' \<and> X = X'"
  proof (cases "X = []")
    case True
    show ?thesis
    proof (cases "X' = []")
      case True
      with \<open>X = []\<close> Y show ?thesis by simp
    next
      case False
      with assms(6) obtain x rest where "X' = newline # x # CHR ''|'' # rest"
        unfolding followsLine_def by blast
      with Y True have "CHR ''|'' \<in> set U" by simp
      with assms(3) show ?thesis by simp
    qed
  next
    case False
    with assms(5) obtain x rest where X: "X = newline # x # CHR ''|'' # rest" "x \<noteq> CHR ''|''"
      unfolding followsLine_def by blast
    show ?thesis
    proof (cases "X' = []")
      case True
      with Y X(1) have "U' = U @ newline # x # CHR ''|'' # rest" by simp
      then have "CHR ''|'' \<in> set U'" by simp
      with assms(4) show ?thesis by simp
    next
      case False
      with assms(6) obtain x' rest' where X': "X' = newline # x' # CHR ''|'' # rest'" "x' \<noteq> CHR ''|''"
        unfolding followsLine_def by blast
      from Y X(1) X'(1) have eq: "(U @ [newline, x]) @ CHR ''|'' # rest = (U' @ [newline, x']) @ CHR ''|'' # rest'"
        by simp
      have free: "CHR ''|'' \<notin> set (U @ [newline, x])" "CHR ''|'' \<notin> set (U' @ [newline, x'])"
        using assms(3,4) X(2) X'(2) by simp_all
      from cancel_left[OF free eq] have "U @ [newline, x] = U' @ [newline, x']" "rest = rest'"
        by simp_all
      with X(1) X'(1) show ?thesis by simp
    qed
  qed
  with N show ?thesis by simp
qed

lemma rev_signatureLine:
  "rev (signatureLine c) @ X =
     (if streaming c then ''1'' else ''0'') @ CHR ''|'' #
       ((if away c then ''1'' else ''0'') @ CHR ''|'' #
         (rev (effectiveAudioState c) @ CHR ''|'' #
           (rev (channelId c) @ CHR ''|'' #
             (rev (name c) @ CHR ''|'' # rev (uid c) @ X))))"
  by (simp add: signatureLine_def)

lemma rev_signatureLine_start:
  "\<exists>x rest. rev (signatureLine c) @ X = x # CHR ''|'' # rest \<and> x \<noteq> CHR ''|''"
  by (simp add: signatureLine_def)

lemma rev_signatureLine_inj:
  assumes "separable c" "separable c'" "followsLine X" "followsLine X'"
    and "rev (signatureLine c) @ X = rev (signatureLine c') @ X'"
  shows "signatureLine c = signatureLine c' \<and> X = X'"
proof -
  let ?b = "\<lambda>f. if f then ''1'' else ''0''"
  have flag: "CHR ''|'' \<notin> set (?b f)" for f by simp
  have audio: "CHR ''|'' \<notin> set (rev (effectiveAudioState d))" for d
    by (simp add: effectiveAudioState_def)
  have cid: "CHR ''|'' \<notin> set (rev (channelId c))" "CHR ''|'' \<notin> set (rev (channelId c'))"
    and uid: "CHR ''|'' \<notin> set (rev (uid c))" "CHR ''|'' \<notin> set (rev (uid c'))"
    and nm: "newline \<notin> set (rev (name c))" "newline \<notin> set (rev (name c'))"
    using assms(1,2) by (simp_all add: separable_def)
  note e0 = assms(5)[unfolded rev_signatureLine]
  from cancel_left[OF flag flag e0] have s: "?b (streaming c) = ?b (streaming c')"
    and e1: "?b (away c) @ CHR ''|'' #
         (rev (effectiveAudioState c) @ CHR ''|'' #
           (rev (channelId c) @ CHR ''|'' #
             (rev (name c) @ CHR ''|'' # rev (uid c) @ X)))
       = ?b (away c') @ CHR ''|'' #
         (rev (effectiveAudioState c') @ CHR ''|'' #
           (rev (channelId c') @ CHR ''|'' #
             (rev (name c') @ CHR ''|'' # rev (uid c') @ X')))" by blast+
  from cancel_left[OF flag flag e1] have a: "?b (away c) = ?b (away c')"
    and e2: "rev (effectiveAudioState c) @ CHR ''|'' #
           (rev (channelId c) @ CHR ''|'' #
             (rev (name c) @ CHR ''|'' # rev (uid c) @ X))
       = rev (effectiveAudioState c') @ CHR ''|'' #
           (rev (channelId c') @ CHR ''|'' #
             (rev (name c') @ CHR ''|'' # rev (uid c') @ X'))" by blast+
  from cancel_left[OF audio audio e2] have au: "rev (effectiveAudioState c) = rev (effectiveAudioState c')"
    and e3: "rev (channelId c) @ CHR ''|'' #
             (rev (name c) @ CHR ''|'' # rev (uid c) @ X)
       = rev (channelId c') @ CHR ''|'' #
             (rev (name c') @ CHR ''|'' # rev (uid c') @ X')" by blast+
  from cancel_left[OF cid e3] have ch: "rev (channelId c) = rev (channelId c')"
    and e4: "rev (name c) @ CHR ''|'' # rev (uid c) @ X
       = rev (name c') @ CHR ''|'' # rev (uid c') @ X'" by blast+
  from name_uid_tail[OF nm uid assms(3,4) e4]
  have n: "rev (name c) = rev (name c')" and u: "rev (uid c) = rev (uid c')" and X: "X = X'"
    by blast+
  have "rev (signatureLine c) @ [] = rev (signatureLine c') @ []"
    unfolding rev_signatureLine using s a au ch n u by simp
  with X show ?thesis by simp
qed

lemma rev_lines_inj:
  "\<forall>c\<in>set ds \<union> set ds'. separable c \<Longrightarrow>
   joinWith [newline] (map (\<lambda>c. rev (signatureLine c)) ds)
     = joinWith [newline] (map (\<lambda>c. rev (signatureLine c)) ds') \<Longrightarrow>
   map (\<lambda>c. rev (signatureLine c)) ds = map (\<lambda>c. rev (signatureLine c)) ds'"
proof (induction ds arbitrary: ds')
  case Nil
  show ?case
  proof (cases ds')
    case Nil
    then show ?thesis by simp
  next
    case (Cons d' ds1')
    with Nil.prems(2) rev_signatureLine_start[of d'] show ?thesis
      by (auto simp: joinWith_Cons split: if_splits)
  qed
next
  case (Cons d ds)
  let ?f = "\<lambda>c. rev (signatureLine c)"
  have tail: "followsLine (if es = [] then [] else [newline] @ joinWith [newline] (map ?f es))" for es
  proof (cases es)
    case Nil
    then show ?thesis by (simp add: followsLine_def)
  next
    case (Cons e es1)
    obtain x rest where "?f e @ (if es1 = [] then [] else [newline] @ joinWith [newline] (map ?f es1))
       = x # CHR ''|'' # rest" "x \<noteq> CHR ''|''"
      using rev_signatureLine_start by blast
    with Cons show ?thesis by (simp add: followsLine_def joinWith_Cons)
  qed
  show ?case
  proof (cases ds')
    case Nil
    with Cons.prems(2) rev_signatureLine_start[of d] show ?thesis
      by (auto simp: joinWith_Cons split: if_splits)
  next
    case (Cons d' ds1')
    let ?X = "if ds = [] then [] else [newline] @ joinWith [newline] (map ?f ds)"
    let ?X' = "if ds1' = [] then [] else [newline] @ joinWith [newline] (map ?f ds1')"
    from Cons.prems(2) Cons have eq: "?f d @ ?X = ?f d' @ ?X'"
      by (simp only: list.map joinWith_Cons map_is_Nil_conv)
    have sep: "separable d" "separable d'" using Cons.prems(1) Cons by auto
    from rev_signatureLine_inj[OF sep tail tail eq]
    have hd: "signatureLine d = signatureLine d'" and X: "?X = ?X'" by blast+
    have "map ?f ds = map ?f ds1'"
    proof (cases "ds = [] \<or> ds1' = []")
      case True
      with X show ?thesis by (auto split: if_splits)
    next
      case False
      with X have "joinWith [newline] (map ?f ds) = joinWith [newline] (map ?f ds1')" by simp
      moreover have "\<forall>c\<in>set ds \<union> set ds1'. separable c" using Cons.prems(1) Cons by auto
      ultimately show ?thesis by (rule Cons.IH[rotated])
    qed
    with hd Cons show ?thesis by simp
  qed
qed

text \<open>
  The lines of separable clients are determined by their join.
\<close>

lemma lines_inj:
  assumes "\<forall>c\<in>set ds \<union> set ds'. separable c"
    and "joinWith [newline] (map signatureLine ds) = joinWith [newline] (map signatureLine ds')"
  shows "map signatureLine ds = map signatureLine ds'"
proof -
  let ?f = "\<lambda>c. rev (signatureLine c)"
  have r: "rev (joinWith [newline] (map signatureLine es)) = joinWith [newline] (map ?f (rev es))" for es
    by (simp add: rev_joinWith rev_map comp_def)
  from assms(2) have "joinWith [newline] (map ?f (rev ds)) = joinWith [newline] (map ?f (rev ds'))"
    by (simp only: r[symmetric])
  moreover have "\<forall>c\<in>set (rev ds) \<union> set (rev ds'). separable c" using assms(1) by simp
  ultimately have "map ?f (rev ds) = map ?f (rev ds')" by (rule rev_lines_inj[rotated])
  then have "map rev (rev (map ?f (rev ds))) = map rev (rev (map ?f (rev ds')))" by simp
  then show ?thesis by (simp add: rev_map comp_def)
qed



text \<open>
  C1, as stated, fails: the fields are joined without escaping, so a pipe in a unique id
  or in a channel id, or a line feed in a name, lets two different snapshots have the same
  signature. In the first pair the unique ids differ, in the second the channel ids, and
  in the third one client with a line feed in its name has the signature of two clients.
\<close>

theorem signature_collision:
  "signatureForClients codeUnitCompare [sampleClient ''a|b'' ''c'' ''d'' False False False False]
     = signatureForClients codeUnitCompare [sampleClient ''a'' ''b|c'' ''d'' False False False False]
   \<and> set (map uid [sampleClient ''a|b'' ''c'' ''d'' False False False False])
     \<noteq> set (map uid [sampleClient ''a'' ''b|c'' ''d'' False False False False])
   \<and> signatureForClients codeUnitCompare [sampleClient ''a'' ''b'' ''c|d'' False False False False]
     = signatureForClients codeUnitCompare [sampleClient ''a'' ''b|c'' ''d'' False False False False]
   \<and> channelId (sampleClient ''a'' ''b'' ''c|d'' False False False False)
     \<noteq> channelId (sampleClient ''a'' ''b|c'' ''d'' False False False False)
   \<and> signatureForClients codeUnitCompare
        [sampleClient ''u1'' (''a|1|unmuted|0|0'' @ [newline] @ ''u2|b'') ''1'' False False False False]
     = signatureForClients codeUnitCompare
        [sampleClient ''u1'' ''a'' ''1'' False False False False,
         sampleClient ''u2'' ''b'' ''1'' False False False False]
   \<and> set (map uid [sampleClient ''u1'' (''a|1|unmuted|0|0'' @ [newline] @ ''u2|b'') ''1'' False False False False])
     \<noteq> set (map uid [sampleClient ''u1'' ''a'' ''1'' False False False False,
                       sampleClient ''u2'' ''b'' ''1'' False False False False])"
  by (simp add: eval_signature)

text \<open>
  C1, amended. If no name of either list contains a line feed and no unique id or channel
  id contains a pipe, then two lists with the same signature show the same members: the
  same unique ids, each with the same name, channel id, audio state, away flag and
  streaming flag, as often in one list as in the other, whatever the order of the lists
  and whatever the comparator.
\<close>

theorem signature_equal_separable:
  assumes "\<forall>c\<in>set cs \<union> set cs'. separable c"
    and "signatureForClients localeCompare cs = signatureForClients localeCompare cs'"
  shows "mset (map displayed cs) = mset (map displayed cs')"
proof -
  let ?S = "jsSort localeCompare (map signatureLine cs)"
  let ?S' = "jsSort localeCompare (map signatureLine cs')"
  have "set ?S = signatureLine ` set cs" "set ?S' = signatureLine ` set cs'"
    by (metis mset_jsSort set_mset_mset set_map)+
  then obtain ds ds' where ds: "set ds \<subseteq> set cs" "map signatureLine ds = ?S"
    and ds': "set ds' \<subseteq> set cs'" "map signatureLine ds' = ?S'"
    using list_preimage[of ?S signatureLine "set cs"] list_preimage[of ?S' signatureLine "set cs'"]
    by auto
  have "\<forall>c\<in>set ds \<union> set ds'. separable c"
    using assms(1) ds(1) ds'(1) by blast
  moreover have "joinWith [newline] (map signatureLine ds) = joinWith [newline] (map signatureLine ds')"
    using assms(2) unfolding signatureForClients_def ds(2) ds'(2) .
  ultimately have "map signatureLine ds = map signatureLine ds'" by (rule lines_inj)
  then have "?S = ?S'" by (simp only: ds(2) ds'(2))
  then have lines: "mset (map signatureLine cs) = mset (map signatureLine cs')"
    by (metis mset_jsSort)
  show ?thesis
  proof (rule map_determined[where f = signatureLine and A = "{c. separable c}"])
    show "displayed x = displayed y"
      if "x \<in> {c. separable c}" "y \<in> {c. separable c}" "signatureLine x = signatureLine y" for x y
      using that signatureLine_inj[of x y] by simp
    show "set cs \<subseteq> {c. separable c}" "set cs' \<subseteq> {c. separable c}"
      using assms(1) by blast+
    show "mset (map signatureLine cs) = mset (map signatureLine cs')" by (rule lines)
  qed
qed

theorem signature_equal_separable_witness:
  "separable (sampleClient (''u'' @ [newline] @ ''2'') ''Bob'' ''1'' True False False False)
   \<and> separable (sampleClient ''u1'' ''Ann|e'' (''2'' @ [newline] @ ''3'') False False True False)
   \<and> signatureForClients codeUnitCompare
        [sampleClient (''u'' @ [newline] @ ''2'') ''Bob'' ''1'' True False False False,
         sampleClient ''u1'' ''Ann|e'' (''2'' @ [newline] @ ''3'') False False True False]
     = signatureForClients codeUnitCompare
        [(sampleClient ''u1'' ''Ann|e'' (''2'' @ [newline] @ ''3'') False False True False)
           \<lparr>connectedMs := Some 5\<rparr>,
         (sampleClient (''u'' @ [newline] @ ''2'') ''Bob'' ''1'' True False False False)
           \<lparr>channelName := ''Hall''\<rparr>]
   \<and> mset (map displayed
        [sampleClient (''u'' @ [newline] @ ''2'') ''Bob'' ''1'' True False False False,
         sampleClient ''u1'' ''Ann|e'' (''2'' @ [newline] @ ''3'') False False True False])
     = mset (map displayed
        [(sampleClient ''u1'' ''Ann|e'' (''2'' @ [newline] @ ''3'') False False True False)
           \<lparr>connectedMs := Some 5\<rparr>,
         (sampleClient (''u'' @ [newline] @ ''2'') ''Bob'' ''1'' True False False False)
           \<lparr>channelName := ''Hall''\<rparr>])"
proof -
  let ?b = "sampleClient (''u'' @ [newline] @ ''2'') ''Bob'' ''1'' True False False False"
  let ?a = "sampleClient ''u1'' ''Ann|e'' (''2'' @ [newline] @ ''3'') False False True False"
  have s: "separable ?b" "separable ?a"
    by (simp_all add: separable_def sampleClient_def)
  have h: "\<forall>c\<in>set [?b, ?a] \<union> set [?a\<lparr>connectedMs := Some 5\<rparr>, ?b\<lparr>channelName := ''Hall''\<rparr>].
      separable c"
    by (simp add: separable_def sampleClient_def)
  have e: "signatureForClients codeUnitCompare [?b, ?a]
     = signatureForClients codeUnitCompare
         [?a\<lparr>connectedMs := Some 5\<rparr>, ?b\<lparr>channelName := ''Hall''\<rparr>]"
    by (simp add: eval_signature)
  from s e signature_equal_separable[OF h e] show ?thesis by (simp only: simp_thms)
qed

text \<open>
  C3, as stated, fails for the input-muted flag: while the output is muted the audio state
  is \<open>deafened\<close> whether the input is muted or not, so the two lists below differ in the
  input-muted flag of their member and in nothing else, and have the same signature.
\<close>

theorem signature_hidden_mute:
  "inputMuted (sampleClient ''u1'' ''Ann'' ''2'' False True False False)
     \<noteq> inputMuted (sampleClient ''u1'' ''Ann'' ''2'' True True False False)
   \<and> signatureForClients codeUnitCompare [sampleClient ''u1'' ''Ann'' ''2'' False True False False]
     = signatureForClients codeUnitCompare [sampleClient ''u1'' ''Ann'' ''2'' True True False False]"
  by (simp add: eval_signature)

text \<open>
  C3, amended. If a list has the members of another, in whatever order, but for one
  member that has the same unique id, name and channel id and differs in the derived audio
  state, in the away flag or in the streaming flag, then the two signatures differ,
  whatever the other fields of the clients contain and whatever the comparator. If a
  member whose output is muted is replaced, in place, by the same member with another
  input-muted flag, the signature stays the same.
\<close>

theorem signature_flag_change:
  assumes "i < length cs"
  shows "(uid c' = uid (cs ! i) \<and> name c' = name (cs ! i) \<and> channelId c' = channelId (cs ! i)
          \<and> (effectiveAudioState c', away c', streaming c')
               \<noteq> (effectiveAudioState (cs ! i), away (cs ! i), streaming (cs ! i))
          \<and> mset cs2 = mset (cs[i := c'])
          \<longrightarrow> signatureForClients localeCompare cs2 \<noteq> signatureForClients localeCompare cs)
       \<and> (outputMuted (cs ! i)
          \<longrightarrow> signatureForClients localeCompare (cs[i := (cs ! i)\<lparr>inputMuted := b\<rparr>])
                = signatureForClients localeCompare cs)"
proof (intro conjI impI)
  assume h: "uid c' = uid (cs ! i) \<and> name c' = name (cs ! i) \<and> channelId c' = channelId (cs ! i)
          \<and> (effectiveAudioState c', away c', streaming c')
               \<noteq> (effectiveAudioState (cs ! i), away (cs ! i), streaming (cs ! i))
          \<and> mset cs2 = mset (cs[i := c'])"
  show "signatureForClients localeCompare cs2 \<noteq> signatureForClients localeCompare cs"
  proof
    assume eq: "signatureForClients localeCompare cs2 = signatureForClients localeCompare cs"
    let ?c = "cs ! i"
    let ?L = "map signatureLine cs"
    let ?L' = "map signatureLine cs2"
    have segs: "mset (splitOn newline (joinWith [newline] (jsSort localeCompare T)))
                  = sum_mset (image_mset (\<lambda>l. mset (splitOn newline l)) (mset T))" if "T \<noteq> []" for T
    proof -
      from that have "jsSort localeCompare T \<noteq> []" by (metis mset_jsSort mset_zero_iff)
      then have "mset (splitOn newline (joinWith [newline] (jsSort localeCompare T)))
          = sum_list (map mset (map (splitOn newline) (jsSort localeCompare T)))"
        by (simp add: splitOn_join mset_concat del: splitOn.simps)
      also have "\<dots> = sum_mset (image_mset (\<lambda>l. mset (splitOn newline l)) (mset (jsSort localeCompare T)))"
        by (simp add: sum_mset_sum_list[symmetric] comp_def del: splitOn.simps)
      finally show ?thesis by (simp only: mset_jsSort)
    qed
    have "mset ?L' = mset (map signatureLine (cs[i := c']))"
      using h by (metis mset_map)
    then have upd: "mset ?L' = add_mset (signatureLine c') (mset ?L - {#signatureLine ?c#})"
      using assms by (simp add: map_update mset_update)
    have old: "mset ?L = add_mset (signatureLine ?c) (mset ?L - {#signatureLine ?c#})"
      using assms by simp
    have ne: "?L \<noteq> []" using assms by auto
    have ne': "?L' \<noteq> []" using upd by (metis mset_zero_iff empty_not_add_mset)
    from eq have "mset (splitOn newline (joinWith [newline] (jsSort localeCompare ?L')))
        = mset (splitOn newline (joinWith [newline] (jsSort localeCompare ?L)))"
      by (simp only: signatureForClients_def)
    then have "sum_mset (image_mset (\<lambda>l. mset (splitOn newline l)) (mset ?L'))
       = sum_mset (image_mset (\<lambda>l. mset (splitOn newline l)) (mset ?L))"
      by (simp only: segs[OF ne] segs[OF ne'])
    then have one: "mset (splitOn newline (signatureLine c')) = mset (splitOn newline (signatureLine ?c))"
      by (subst (asm) upd, subst (asm) (2) old) (simp del: splitOn.simps)
    let ?P = "uid ?c @ ''|'' @ name ?c @ ''|'' @ channelId ?c @ ''|''"
    let ?f = "\<lambda>c. effectiveAudioState c @ CHR ''|'' # (if away c then ''1'' else ''0'')
               @ CHR ''|'' # (if streaming c then ''1'' else ''0'')"
    have l: "signatureLine ?c = ?P @ ?f ?c" by (rule flags_suffix)
    have l': "signatureLine c' = ?P @ ?f c'" using h by (simp only: flags_suffix)
    have free: "newline \<notin> set (?f c)" for c by (simp add: effectiveAudioState_def)
    from one have "last (splitOn newline ?P) @ ?f c' = last (splitOn newline ?P) @ ?f ?c"
      unfolding l l' splitOn_append_free[OF free] by simp
    then have "?f c' = ?f ?c" by simp
    from flags_inj[OF this] h show False by simp
  qed
next
  assume "outputMuted (cs ! i)"
  then have "signatureLine ((cs ! i)\<lparr>inputMuted := b\<rparr>) = signatureLine (cs ! i)"
    by (simp add: signatureLine_def effectiveAudioState_def)
  then have "map signatureLine (cs[i := (cs ! i)\<lparr>inputMuted := b\<rparr>]) = map signatureLine cs"
    using assms by (simp add: map_update list_update_same_conv)
  then show "signatureForClients localeCompare (cs[i := (cs ! i)\<lparr>inputMuted := b\<rparr>])
                = signatureForClients localeCompare cs"
    by (simp only: signatureForClients_def)
qed

theorem signature_flag_change_witness:
  "(0::nat) < length [sampleClient ''u1'' ''Ann'' ''2'' False True False False,
                      sampleClient ''u2'' ''Bob'' ''1'' True False False False]
   \<and> signatureForClients codeUnitCompare
        [sampleClient ''u2'' ''Bob'' ''1'' True False False False,
         sampleClient ''u1'' ''Ann'' ''2'' False True False True]
     \<noteq> signatureForClients codeUnitCompare
        [sampleClient ''u1'' ''Ann'' ''2'' False True False False,
         sampleClient ''u2'' ''Bob'' ''1'' True False False False]
   \<and> outputMuted (sampleClient ''u1'' ''Ann'' ''2'' False True False False)
   \<and> signatureForClients codeUnitCompare
        [sampleClient ''u1'' ''Ann'' ''2'' True True False False,
         sampleClient ''u2'' ''Bob'' ''1'' True False False False]
     = signatureForClients codeUnitCompare
        [sampleClient ''u1'' ''Ann'' ''2'' False True False False,
         sampleClient ''u2'' ''Bob'' ''1'' True False False False]"
proof -
  let ?a = "sampleClient ''u1'' ''Ann'' ''2'' False True False False"
  let ?b = "sampleClient ''u2'' ''Bob'' ''1'' True False False False"
  have i: "(0::nat) < length [?a, ?b]" by simp
  have m: "mset [?b, sampleClient ''u1'' ''Ann'' ''2'' False True False True]
             = mset ([?a, ?b][0 := sampleClient ''u1'' ''Ann'' ''2'' False True False True])"
    by (simp add: add_mset_commute)
  have o: "outputMuted ?a" by (simp add: sampleClient_def)
  have u: "[?a, ?b][0 := ([?a, ?b] ! 0)\<lparr>inputMuted := True\<rparr>]
             = [sampleClient ''u1'' ''Ann'' ''2'' True True False False, ?b]"
    by (simp add: sampleClient_def)
  note inst = signature_flag_change[OF i,
      where c' = "sampleClient ''u1'' ''Ann'' ''2'' False True False True"
        and ?cs2.0 = "[?b, sampleClient ''u1'' ''Ann'' ''2'' False True False True]"
        and localeCompare = codeUnitCompare and b = True]
  from inst m have 1: "signatureForClients codeUnitCompare
        [?b, sampleClient ''u1'' ''Ann'' ''2'' False True False True]
     \<noteq> signatureForClients codeUnitCompare [?a, ?b]"
    by (simp add: sampleClient_def effectiveAudioState_def)
  from inst o have 2: "signatureForClients codeUnitCompare
        [sampleClient ''u1'' ''Ann'' ''2'' True True False False, ?b]
     = signatureForClients codeUnitCompare [?a, ?b]"
    unfolding u by simp
  from i 1 o 2 show ?thesis by (simp only: simp_thms)
qed


section \<open>Client list parsing\<close>

text \<open>What the three required fields of a parsed client are in terms of the record.\<close>

lemma toActiveClient_required:
  "clid (toActiveClient toNumber channelNameById r) \<noteq> []
     \<longleftrightarrow> (\<exists>v. r ''clid'' = Some v \<and> v \<noteq> [])"
  "name (toActiveClient toNumber channelNameById r) \<noteq> []
     \<longleftrightarrow> r ''client_nickname'' \<noteq> Some []"
  "uid (toActiveClient toNumber channelNameById r) \<noteq> []
     \<longleftrightarrow> (case r ''client_unique_identifier'' of
            Some v \<Rightarrow> v \<noteq> []
          | None \<Rightarrow> (\<exists>v. r ''clid'' = Some v \<and> v \<noteq> []))"
  by (auto simp: toActiveClient_def Let_def split: option.splits)

text \<open>
  C4. A client is in the list that \<^verbatim>\<open>parseClientList\<close> returns exactly if the payload line
  is neither empty nor prefixed with \<open>error\<close>, the client is parsed from one of its
  segments whose \<open>client_type\<close> is \<open>0\<close>, and its id, unique id and name are not empty; every
  other record is dropped. An empty or error-prefixed payload line, and a payload line
  without any valid record, give the empty list (the function has no failing branch).
\<close>

theorem parseClientList_valid:
  "(c \<in> set (parseClientList toNumber payloadLine channelNameById)
      \<longleftrightarrow> payloadLine \<noteq> [] \<and> \<not> prefix ''error '' payloadLine
          \<and> (\<exists>segment\<in>set (splitOn CHR ''|'' payloadLine).
                parsePairs segment ''client_type'' = Some ''0''
                \<and> c = toActiveClient toNumber channelNameById (parsePairs segment))
          \<and> clid c \<noteq> [] \<and> uid c \<noteq> [] \<and> name c \<noteq> [])
   \<and> (payloadLine = [] \<or> prefix ''error '' payloadLine
        \<longrightarrow> parseClientList toNumber payloadLine channelNameById = [])
   \<and> ((\<forall>segment\<in>set (splitOn CHR ''|'' payloadLine).
          parsePairs segment ''client_type'' \<noteq> Some ''0''
          \<or> clid (toActiveClient toNumber channelNameById (parsePairs segment)) = []
          \<or> uid (toActiveClient toNumber channelNameById (parsePairs segment)) = []
          \<or> name (toActiveClient toNumber channelNameById (parsePairs segment)) = [])
        \<longrightarrow> parseClientList toNumber payloadLine channelNameById = [])"
proof (intro conjI)
  show "c \<in> set (parseClientList toNumber payloadLine channelNameById)
      \<longleftrightarrow> payloadLine \<noteq> [] \<and> \<not> prefix ''error '' payloadLine
          \<and> (\<exists>segment\<in>set (splitOn CHR ''|'' payloadLine).
                parsePairs segment ''client_type'' = Some ''0''
                \<and> c = toActiveClient toNumber channelNameById (parsePairs segment))
          \<and> clid c \<noteq> [] \<and> uid c \<noteq> [] \<and> name c \<noteq> []"
    unfolding parseClientList_def Let_def
    by (cases "payloadLine = [] \<or> prefix ''error '' payloadLine") auto
  show "payloadLine = [] \<or> prefix ''error '' payloadLine
        \<longrightarrow> parseClientList toNumber payloadLine channelNameById = []"
    by (simp add: parseClientList_def)
  show "(\<forall>segment\<in>set (splitOn CHR ''|'' payloadLine).
          parsePairs segment ''client_type'' \<noteq> Some ''0''
          \<or> clid (toActiveClient toNumber channelNameById (parsePairs segment)) = []
          \<or> uid (toActiveClient toNumber channelNameById (parsePairs segment)) = []
          \<or> name (toActiveClient toNumber channelNameById (parsePairs segment)) = [])
        \<longrightarrow> parseClientList toNumber payloadLine channelNameById = []"
    unfolding parseClientList_def Let_def by (auto simp: filter_empty_conv)
qed

lemma sample_segments:
  "splitOn CHR ''|'' samplePayload =
     [''clid=1 cid=5 client_type=0 client_nickname=Ann'' @ [bslash] @ ''sB client_unique_identifier=u1'',
      ''clid=2 cid=5 client_type=1 client_nickname=serveradmin'',
      ''clid=3 cid=5 client_type=0 client_nickname'']"
  by (simp add: samplePayload_def)

lemmas eval_parse =
  parsePairs_def parsePair_def toActiveClient_def decodeQueryValue_def

lemma sample_result:
  "parseClientList (\<lambda>s. NaN) samplePayload [''5'' \<mapsto> ''Lobby'']
     = [\<lparr> clid = ''1'', uid = ''u1'', name = ''Ann B'', channelId = ''5'', channelName = ''Lobby'',
          inputMuted = False, outputMuted = False, away = False, streaming = False,
          connectedMs = None \<rparr>]"
  unfolding parseClientList_def sample_segments
  by (simp add: samplePayload_def eval_parse)

lemma sample_rejected:
  "\<forall>segment\<in>set (splitOn CHR ''|'' (''clid=2 client_type=1 client_nickname=serveradmin'' @
                                        ''|clid=3 client_type=0 client_nickname'')).
      parsePairs segment ''client_type'' \<noteq> Some ''0''
      \<or> clid (toActiveClient (\<lambda>s. NaN) Map.empty (parsePairs segment)) = []
      \<or> uid (toActiveClient (\<lambda>s. NaN) Map.empty (parsePairs segment)) = []
      \<or> name (toActiveClient (\<lambda>s. NaN) Map.empty (parsePairs segment)) = []"
  by (simp add: eval_parse)

theorem parseClientList_valid_witness:
  "parseClientList (\<lambda>s. NaN) samplePayload [''5'' \<mapsto> ''Lobby'']
     = [\<lparr> clid = ''1'', uid = ''u1'', name = ''Ann B'', channelId = ''5'', channelName = ''Lobby'',
          inputMuted = False, outputMuted = False, away = False, streaming = False,
          connectedMs = None \<rparr>]
   \<and> parseClientList (\<lambda>s. NaN) [] Map.empty = []
   \<and> parseClientList (\<lambda>s. NaN) ''error id=1024 msg=invalid'' Map.empty = []
   \<and> parseClientList (\<lambda>s. NaN)
        (''clid=2 client_type=1 client_nickname=serveradmin'' @
         ''|clid=3 client_type=0 client_nickname'') Map.empty = []"
proof -
  have 1: "parseClientList (\<lambda>s. NaN) [] Map.empty = []"
    using parseClientList_valid[of "sampleClient [] [] [] False False False False" "\<lambda>s. NaN" "[]" Map.empty] by simp
  have 2: "parseClientList (\<lambda>s. NaN) ''error id=1024 msg=invalid'' Map.empty = []"
    using parseClientList_valid[of "sampleClient [] [] [] False False False False" "\<lambda>s. NaN" "''error id=1024 msg=invalid''" Map.empty]
    by simp
  have 3: "parseClientList (\<lambda>s. NaN)
        (''clid=2 client_type=1 client_nickname=serveradmin'' @
         ''|clid=3 client_type=0 client_nickname'') Map.empty = []"
    using parseClientList_valid[of "sampleClient [] [] [] False False False False" "\<lambda>s. NaN"
        "''clid=2 client_type=1 client_nickname=serveradmin'' @
         ''|clid=3 client_type=0 client_nickname''" Map.empty] sample_rejected
    by blast
  from sample_result 1 2 3 show ?thesis by (simp only: simp_thms)
qed


section \<open>Command framing\<close>

declare readLines.simps [simp del]

lemma parsePair_dom: "k \<in> dom m \<Longrightarrow> k \<in> dom (parsePair p m)"
  by (auto simp: parsePair_def split: option.splits)

lemma fold_parsePair_dom: "k \<in> dom m \<Longrightarrow> k \<in> dom (fold parsePair ps m)"
  by (induction ps arbitrary: m) (simp_all add: parsePair_dom)

lemma splitOn_prefix_free:
  "sep \<notin> set p \<Longrightarrow> splitOn sep (p @ r) = (p @ hd (splitOn sep r)) # tl (splitOn sep r)"
proof (induction p)
  case Nil
  then show ?case using splitOn_nonempty[of sep r] by simp
next
  case (Cons c p)
  then show ?case by auto
qed

text \<open>A line that starts with the marker of the status line has an \<open>id\<close> field.\<close>

lemma status_has_id:
  assumes "prefix ''error id='' t"
  shows "parsePairs t ''id'' \<noteq> None"
proof -
  from assms obtain rest where t: "t = ''error'' @ CHR '' '' # (''id='' @ rest)"
    by (auto simp: prefix_def)
  have 1: "splitOn CHR '' '' t = [''error''] @ splitOn CHR '' '' (''id='' @ rest)"
    unfolding t splitOn_append_sep by (simp add: splitOn_free)
  have 2: "splitOn CHR '' '' (''id='' @ rest)
             = (''id='' @ hd (splitOn CHR '' '' rest)) # tl (splitOn CHR '' '' rest)"
    by (rule splitOn_prefix_free) simp
  have "''id'' \<in> dom (parsePair (''id='' @ w) m)" for w m
    by (simp add: parsePair_def)
  then have "''id'' \<in> dom (parsePairs t)"
    unfolding parsePairs_def 1 2 by (simp add: fold_parsePair_dom del: splitOn.simps)
  then show ?thesis by auto
qed

text \<open>
  When the loop returns, the last line it has collected starts with the marker, and no
  line that it has collected before does.
\<close>

lemma readLines_result:
  "readLines lines0 s = (Inr lines, s') \<Longrightarrow>
     \<exists>body status. lines = lines0 @ body @ [status] \<and> prefix ''error id='' status
        \<and> (\<forall>l\<in>set body. \<not> prefix ''error id='' l)"
proof (induction lines0 s rule: readLines.induct)
  case (1 lines0 s)
  show ?case
  proof (cases "lineBreakIndex (buffer s)")
    case None
    show ?thesis
    proof (cases "incoming s")
      case Nil
      with None "1.prems" show ?thesis by (simp add: readLines.simps[of lines0 s])
    next
      case (Cons ev rest)
      show ?thesis
      proof (cases ev)
        case (Data chunk)
        with None Cons "1.prems"
        have "readLines lines0 (s\<lparr>buffer := buffer s @ chunk, incoming := rest\<rparr>) = (Inr lines, s')"
          by (simp add: readLines.simps[of lines0 s])
        from "1.IH"(1)[OF None Cons Data this] show ?thesis .
      next
        case Silence
        with None Cons "1.prems" show ?thesis by (simp add: readLines.simps[of lines0 s])
      qed
    qed
  next
    case (Some idx)
    define line where "line = trim (take idx (buffer s))"
    define s1 where "s1 = s\<lparr>buffer := drop (consumeLength (buffer s) idx) (buffer s)\<rparr>"
    define lines1 where "lines1 = (if line \<noteq> [] then lines0 @ [line] else lines0)"
    have step: "readLines lines0 s
                  = (if prefix ''error id='' line then (Inr lines1, s1) else readLines lines1 s1)"
      using Some by (simp add: readLines.simps[of lines0 s] Let_def line_def s1_def lines1_def)
    show ?thesis
    proof (cases "prefix ''error id='' line")
      case True
      then have "line \<noteq> []" by auto
      with True step "1.prems" have "lines = lines0 @ [] @ [line]" by (simp add: lines1_def)
      with True show ?thesis by (intro exI[of _ "[]"] exI[of _ line]) simp
    next
      case False
      with step "1.prems" have rec: "readLines lines1 s1 = (Inr lines, s')" by simp
      from "1.IH"(2)[OF Some refl refl refl refl False[unfolded line_def]
                        rec[unfolded lines1_def s1_def line_def]]
      obtain body status where b: "lines = lines1 @ body @ [status]" "prefix ''error id='' status"
        "\<forall>l\<in>set body. \<not> prefix ''error id='' l"
        unfolding lines1_def line_def by blast
      show ?thesis
      proof (cases "line = []")
        case True
        with b show ?thesis by (auto simp: lines1_def)
      next
        case nonempty: False
        with b False have "lines = lines0 @ (line # body) @ [status]"
          "\<forall>l\<in>set (line # body). \<not> prefix ''error id='' l" by (auto simp: lines1_def)
        with b(2) show ?thesis by blast
      qed
    qed
  qed
qed

lemma prefix_includesStr: "prefix pat s \<Longrightarrow> includesStr s pat"
  by (cases s) auto

text \<open>
  C7. When the read times out, \<^verbatim>\<open>command\<close> throws. Otherwise the lines read are body lines
  followed by one status line, the first line that starts with the marker; it has an \<open>id\<close>
  field. If that field is \<open>"0"\<close>, \<^verbatim>\<open>command\<close> returns exactly the body lines; if it is
  anything else, \<^verbatim>\<open>command\<close> throws an error whose message carries the field and the
  message of the status line. A line that lacks the \<open>id\<close> field is not taken for a status
  line, so it never ends a command with success.
\<close>

theorem command_result:
  "(case readUntilErrorLine (s\<lparr>written := written s @ [commandText @ [creturn, newline]]\<rparr>) of
      (Inl e, s') \<Rightarrow> command commandText s = (Inl e, s')
    | (Inr lines, s') \<Rightarrow>
        (\<exists>body status.
           lines = body @ [status] \<and> prefix ''error id='' status
           \<and> (\<forall>l\<in>set body. \<not> prefix ''error id='' l)
           \<and> parsePairs status ''id'' \<noteq> None
           \<and> command commandText s =
               (if parsePairs status ''id'' = Some ''0'' then (Inr body, s')
                else (Inl (Error (''TeamSpeak query command failed (''
                                   @ (case parsePairs status ''id'' of
                                        None \<Rightarrow> ''undefined''
                                      | Some i \<Rightarrow> i)
                                   @ ''): ''
                                   @ (case parsePairs status ''msg'' of
                                        None \<Rightarrow> ''Unknown TeamSpeak query error''
                                      | Some m \<Rightarrow> m))), s'))))"
proof (cases "readUntilErrorLine (s\<lparr>written := written s @ [commandText @ [creturn, newline]]\<rparr>)")
  case (Pair r s')
  show ?thesis
  proof (cases r)
    case (Inl e)
    with Pair show ?thesis by (simp add: command_def)
  next
    case (Inr lines)
    with Pair have "readLines [] (s\<lparr>written := written s @ [commandText @ [creturn, newline]]\<rparr>)
                     = (Inr lines, s')"
      by (simp add: readUntilErrorLine_def)
    from readLines_result[OF this]
    obtain body status where b: "lines = body @ [status]" "prefix ''error id='' status"
      "\<forall>l\<in>set body. \<not> prefix ''error id='' l"
      by auto
    have found: "find (\<lambda>line. includesStr line ''error id='') (rev lines) = Some status"
      using b(1,2) by (simp add: prefix_includesStr)
    have cmd: "command commandText s =
               (if parsePairs status ''id'' = Some ''0'' then (Inr body, s')
                else (Inl (Error (''TeamSpeak query command failed (''
                                   @ (case parsePairs status ''id'' of
                                        None \<Rightarrow> ''undefined''
                                      | Some i \<Rightarrow> i)
                                   @ ''): ''
                                   @ (case parsePairs status ''msg'' of
                                        None \<Rightarrow> ''Unknown TeamSpeak query error''
                                      | Some m \<Rightarrow> m))), s'))"
      using Pair Inr found b(1) by (simp add: command_def Let_def)
    from b cmd status_has_id[OF b(2)] Pair Inr show ?thesis by auto
  qed
qed

lemmas eval_command =
  command_def readUntilErrorLine_def readLines.simps lineBreakIndex_def consumeLength_def
  charAt_def trim_def isWhitespace_def parsePairs_def parsePair_def decodeQueryValue_def

theorem command_result_witness:
  "command ''serverinfo'' sessionOk
     = (Inr [''junk'', ''virtualserver_name=My'' @ [bslash] @ ''sServer''],
        \<lparr> buffer = ''rest'', incoming = [], written = [''serverinfo'' @ [creturn, newline]] \<rparr>)
   \<and> command ''use port=9987'' sessionError
     = (Inl (Error ''TeamSpeak query command failed (1024): invalid serverID''),
        \<lparr> buffer = [], incoming = [], written = [''use port=9987'' @ [creturn, newline]] \<rparr>)
   \<and> command ''serverinfo'' sessionNoId
     = (Inl (Error ''Timed out waiting for TeamSpeak query response''),
        \<lparr> buffer = [], incoming = [], written = [''serverinfo'' @ [creturn, newline]] \<rparr>)"
proof -
  have 1: "command ''serverinfo'' sessionOk
     = (Inr [''junk'', ''virtualserver_name=My'' @ [bslash] @ ''sServer''],
        \<lparr> buffer = ''rest'', incoming = [], written = [''serverinfo'' @ [creturn, newline]] \<rparr>)"
    using command_result[where s = sessionOk and commandText = "''serverinfo''"]
    by (simp add: sessionOk_def eval_command)
  have 2: "command ''use port=9987'' sessionError
     = (Inl (Error ''TeamSpeak query command failed (1024): invalid serverID''),
        \<lparr> buffer = [], incoming = [], written = [''use port=9987'' @ [creturn, newline]] \<rparr>)"
    using command_result[where s = sessionError and commandText = "''use port=9987''"]
    by (simp add: sessionError_def eval_command)
  have 3: "command ''serverinfo'' sessionNoId
     = (Inl (Error ''Timed out waiting for TeamSpeak query response''),
        \<lparr> buffer = [], incoming = [], written = [''serverinfo'' @ [creturn, newline]] \<rparr>)"
    using command_result[where s = sessionNoId and commandText = "''serverinfo''"]
    by (simp add: sessionNoId_def eval_command)
  from 1 2 3 show ?thesis by (simp only: simp_thms)
qed


section \<open>Detail lookups\<close>

lemma fill_length_result:
  "fillConnectedTimes toNumber q cs = (cs', q') \<Longrightarrow> length cs' = length cs"
proof (induction cs arbitrary: q cs' q')
  case Nil
  then show ?case by simp
next
  case (Cons c cs)
  obtain r q1 where cmd: "command (''clientinfo clid='' @ clid c) q = (r, q1)"
    by (cases "command (''clientinfo clid='' @ clid c) q")
  obtain rest q2 where rest: "fillConnectedTimes toNumber q1 cs = (rest, q2)"
    by (cases "fillConnectedTimes toNumber q1 cs")
  from Cons.IH[OF rest] have "length rest = length cs" .
  with Cons.prems cmd rest show ?case by (cases r) auto
qed

lemma fill_length: "length (fst (fillConnectedTimes toNumber q cs)) = length cs"
  by (cases "fillConnectedTimes toNumber q cs") (simp add: fill_length_result)

lemma fill_append:
  "fillConnectedTimes toNumber q (xs @ ys) =
     (case fillConnectedTimes toNumber q xs of
        (xs', q1) \<Rightarrow> (case fillConnectedTimes toNumber q1 ys of
                         (ys', q2) \<Rightarrow> (xs' @ ys', q2)))"
proof (induction xs arbitrary: q)
  case Nil
  then show ?case by (simp split: prod.splits)
next
  case (Cons x xs)
  show ?case
  proof (cases "command (''clientinfo clid='' @ clid x) q")
    case (Pair r q1)
    then show ?thesis
      by (cases r) (simp_all add: Cons.IH split: prod.splits)
  qed
qed

text \<open>
  What becomes of the client at position \<open>i\<close>: its lookup runs on the session as the
  lookups of the clients before it have left it, and decides alone.
\<close>

lemma fill_hd:
  "hd (fst (fillConnectedTimes toNumber q (c # cs))) =
     (case command (''clientinfo clid='' @ clid c) q of
        (Inr infoLines, q') \<Rightarrow> refineClient toNumber c infoLines
      | (Inl e, q') \<Rightarrow> c)"
  by (simp split: prod.splits sum.splits)

lemma fill_nth:
  assumes "i < length cs"
  shows "fst (fillConnectedTimes toNumber q cs) ! i =
     (case command (''clientinfo clid='' @ clid (cs ! i))
             (snd (fillConnectedTimes toNumber q (take i cs))) of
        (Inr infoLines, q') \<Rightarrow> refineClient toNumber (cs ! i) infoLines
      | (Inl e, q') \<Rightarrow> cs ! i)"
proof -
  obtain xs' q1 where before: "fillConnectedTimes toNumber q (take i cs) = (xs', q1)"
    by (cases "fillConnectedTimes toNumber q (take i cs)")
  define ys where "ys = fst (fillConnectedTimes toNumber q1 (cs ! i # drop (Suc i) cs))"
  have len: "length xs' = i"
    using fill_length_result[OF before] assms by simp
  have ys: "ys \<noteq> []"
    using fill_length[of toNumber q1 "cs ! i # drop (Suc i) cs"] unfolding ys_def by auto
  have cs: "cs = take i cs @ (cs ! i # drop (Suc i) cs)"
    using assms by (simp add: id_take_nth_drop[symmetric])
  have "fillConnectedTimes toNumber q cs
          = fillConnectedTimes toNumber q (take i cs @ (cs ! i # drop (Suc i) cs))"
    using cs by simp
  then have "fst (fillConnectedTimes toNumber q cs) = xs' @ ys"
    unfolding fill_append before ys_def by (simp split: prod.splits del: fillConnectedTimes.simps)
  then have "fst (fillConnectedTimes toNumber q cs) ! i = hd ys"
    using len ys by (simp add: nth_append hd_conv_nth)
  then show ?thesis
    unfolding ys_def fill_hd by (simp add: before)
qed


text \<open>
  C10. For a client whose lookup returns, the streaming flag is what the detail record
  says and nothing else: true exactly if the record has \<open>client_is_streaming=1\<close> or
  \<open>client_is_recording=1\<close>, so false when it has neither field, whatever the flag was
  before. The connected time is overwritten only if the record gives a finite number
  that is not negative. No other field changes.
\<close>

theorem fill_refines_from_detail:
  assumes "i < length cs"
    and "command (''clientinfo clid='' @ clid (cs ! i))
           (snd (fillConnectedTimes toNumber q (take i cs))) = (Inr infoLines, q')"
  shows "streaming (fst (fillConnectedTimes toNumber q cs) ! i)
           = (clientInfoRecord infoLines ''client_is_streaming'' = Some ''1''
              \<or> clientInfoRecord infoLines ''client_is_recording'' = Some ''1'')
     \<and> (clientInfoRecord infoLines ''client_is_streaming'' = None
        \<and> clientInfoRecord infoLines ''client_is_recording'' = None
        \<longrightarrow> \<not> streaming (fst (fillConnectedTimes toNumber q cs) ! i))
     \<and> connectedMs (fst (fillConnectedTimes toNumber q cs) ! i)
           = (case clientInfoMs toNumber (clientInfoRecord infoLines) of
                Finite x \<Rightarrow> if 0 \<le> x then Some x else connectedMs (cs ! i)
              | _ \<Rightarrow> connectedMs (cs ! i))
     \<and> fst (fillConnectedTimes toNumber q cs) ! i
           = (cs ! i)\<lparr> streaming := streaming (fst (fillConnectedTimes toNumber q cs) ! i),
                       connectedMs := connectedMs (fst (fillConnectedTimes toNumber q cs) ! i) \<rparr>"
proof -
  have "fst (fillConnectedTimes toNumber q cs) ! i = refineClient toNumber (cs ! i) infoLines"
    using fill_nth[OF assms(1), of toNumber q] assms(2) by simp
  then show ?thesis
    by (simp add: refineClient_def Let_def split: jsnumber.splits)
qed

lemmas eval_fill =
  eval_command refineClient_def clientInfoRecord_def clientInfoMs_def sampleNumber_def
  sessionLookups_def sampleClient_def


lemma sample_second_lookup:
  "command (''clientinfo clid='' @ clid (sampleClient ''u2'' ''Bob'' ''1'' True False False True))
     (snd (fillConnectedTimes sampleNumber sessionLookups
             [sampleClient ''u1'' ''Ann'' ''2'' False False False True]))
     = (Inr [''client_type=0 connection_connected_time=5000''],
        \<lparr> buffer = [], incoming = [],
          written = [''clientinfo clid=7'' @ [creturn, newline],
                     ''clientinfo clid=7'' @ [creturn, newline]] \<rparr>)"
  by (simp add: eval_fill)


theorem fill_refines_from_detail_witness:
  "streaming (sampleClient ''u2'' ''Bob'' ''1'' True False False True)
   \<and> clientInfoRecord [''client_type=0 connection_connected_time=5000''] ''client_is_streaming'' = None
   \<and> clientInfoRecord [''client_type=0 connection_connected_time=5000''] ''client_is_recording'' = None
   \<and> \<not> streaming (fst (fillConnectedTimes sampleNumber sessionLookups
          [sampleClient ''u1'' ''Ann'' ''2'' False False False True,
           sampleClient ''u2'' ''Bob'' ''1'' True False False True]) ! 1)
   \<and> connectedMs (fst (fillConnectedTimes sampleNumber sessionLookups
          [sampleClient ''u1'' ''Ann'' ''2'' False False False True,
           sampleClient ''u2'' ''Bob'' ''1'' True False False True]) ! 1) = Some 5000"
proof -
  let ?cs = "[sampleClient ''u1'' ''Ann'' ''2'' False False False True,
              sampleClient ''u2'' ''Bob'' ''1'' True False False True]"
  have i: "1 < length ?cs" by simp
  have second: "command (''clientinfo clid='' @ clid (?cs ! 1))
     (snd (fillConnectedTimes sampleNumber sessionLookups (take 1 ?cs)))
     = (Inr [''client_type=0 connection_connected_time=5000''],
        \<lparr> buffer = [], incoming = [],
          written = [''clientinfo clid=7'' @ [creturn, newline],
                     ''clientinfo clid=7'' @ [creturn, newline]] \<rparr>)"
    using sample_second_lookup by simp
  have info: "clientInfoRecord [''client_type=0 connection_connected_time=5000''] ''client_is_streaming'' = None"
    "clientInfoRecord [''client_type=0 connection_connected_time=5000''] ''client_is_recording'' = None"
    "clientInfoMs sampleNumber (clientInfoRecord [''client_type=0 connection_connected_time=5000'']) = Finite 5000"
    by (simp_all add: eval_fill)
  have s: "streaming (sampleClient ''u2'' ''Bob'' ''1'' True False False True)"
    by (simp add: sampleClient_def)
  from fill_refines_from_detail[OF i second] info s show ?thesis by simp
qed


section \<open>Change tracking\<close>








text \<open>
  C5. A round publishes, or tries to, exactly if the signature of the snapshot differs
  from the last published one (which is none before the first publication) or at least the
  forced refresh interval of thirty seconds has passed since the last publication. When
  the publication succeeds, the signature and the time of the round become the last
  published ones; in every other case both stay as they are.
\<close>

theorem publish_decision:
  assumes "syncStep localeCompare snapshot now publishOk st = (st', out)"
  shows "(out \<noteq> Skipped \<longleftrightarrow>
            Some (signatureForClients localeCompare
                    (jsSort (\<lambda>a b. localeCompare (name a) (name b)) (clients snapshot)))
              \<noteq> lastPublishedSignature st
            \<or> now - lastPublishedAt st \<ge> forcedRefreshMs)
     \<and> ((\<exists>joined. out = Published joined) \<longleftrightarrow> out \<noteq> Skipped \<and> publishOk)
     \<and> ((\<exists>joined. out = Published joined)
          \<longrightarrow> lastPublishedSignature st'
                = Some (signatureForClients localeCompare
                          (jsSort (\<lambda>a b. localeCompare (name a) (name b)) (clients snapshot)))
              \<and> lastPublishedAt st' = now)
     \<and> ((\<nexists>joined. out = Published joined)
          \<longrightarrow> lastPublishedSignature st' = lastPublishedSignature st
              \<and> lastPublishedAt st' = lastPublishedAt st)"
  using assms by (auto simp: syncStep_def Let_def split: if_splits)

lemmas eval_sync =
  syncStep_def Let_def eval_signature newSet_def rememberNames_def recordDepartures_def
  pruneRecentlyLeft_def forcedRefreshMs_def RECENTLY_LEFT_WINDOW_MS_def
  trackerInit_def trackerDeparted_def snapshotOf_def

text \<open>
  The first round publishes, a round ten seconds later with the same client does not, and
  a round thirty seconds after the first publishes again.
\<close>

lemma sample_rounds:
  "syncStep codeUnitCompare
     (snapshotOf [sampleClient ''u1'' ''Ann'' ''2'' False False False False]) 1000000 True
     trackerInit
   = (\<lparr> lastPublishedSignature = Some ''u1|Ann|2|unmuted|0|0'', lastPublishedAt = 1000000,
         lastClientIds = Some [''u1''], recentlyLeft = [],
         lastKnownNames = [(''u1'', ''Ann'')] \<rparr>, Published [])"
  "syncStep codeUnitCompare
     (snapshotOf [sampleClient ''u1'' ''Ann'' ''2'' False False False False]) 1010000 True
     \<lparr> lastPublishedSignature = Some ''u1|Ann|2|unmuted|0|0'', lastPublishedAt = 1000000,
       lastClientIds = Some [''u1''], recentlyLeft = [],
       lastKnownNames = [(''u1'', ''Ann'')] \<rparr>
   = (\<lparr> lastPublishedSignature = Some ''u1|Ann|2|unmuted|0|0'', lastPublishedAt = 1000000,
         lastClientIds = Some [''u1''], recentlyLeft = [],
         lastKnownNames = [(''u1'', ''Ann'')] \<rparr>, Skipped)"
  "syncStep codeUnitCompare
     (snapshotOf [sampleClient ''u1'' ''Ann'' ''2'' False False False False]) 1030000 True
     \<lparr> lastPublishedSignature = Some ''u1|Ann|2|unmuted|0|0'', lastPublishedAt = 1000000,
       lastClientIds = Some [''u1''], recentlyLeft = [],
       lastKnownNames = [(''u1'', ''Ann'')] \<rparr>
   = (\<lparr> lastPublishedSignature = Some ''u1|Ann|2|unmuted|0|0'', lastPublishedAt = 1030000,
         lastClientIds = Some [''u1''], recentlyLeft = [],
         lastKnownNames = [(''u1'', ''Ann'')] \<rparr>, Published [])"
  by (simp_all add: eval_sync)

theorem publish_decision_witness:
  "syncStep codeUnitCompare
     (snapshotOf [sampleClient ''u1'' ''Ann'' ''2'' False False False False]) 1000000 True
     trackerInit
   = (\<lparr> lastPublishedSignature = Some ''u1|Ann|2|unmuted|0|0'', lastPublishedAt = 1000000,
         lastClientIds = Some [''u1''], recentlyLeft = [],
         lastKnownNames = [(''u1'', ''Ann'')] \<rparr>, Published [])
   \<and> syncStep codeUnitCompare
     (snapshotOf [sampleClient ''u1'' ''Ann'' ''2'' False False False False]) 1030000 True
     \<lparr> lastPublishedSignature = Some ''u1|Ann|2|unmuted|0|0'', lastPublishedAt = 1000000,
       lastClientIds = Some [''u1''], recentlyLeft = [],
       lastKnownNames = [(''u1'', ''Ann'')] \<rparr>
   = (\<lparr> lastPublishedSignature = Some ''u1|Ann|2|unmuted|0|0'', lastPublishedAt = 1030000,
         lastClientIds = Some [''u1''], recentlyLeft = [],
         lastKnownNames = [(''u1'', ''Ann'')] \<rparr>, Published [])
   \<and> Some (signatureForClients codeUnitCompare
             (jsSort (\<lambda>a b. codeUnitCompare (name a) (name b))
                (clients (snapshotOf [sampleClient ''u1'' ''Ann'' ''2'' False False False False]))))
       = Some ''u1|Ann|2|unmuted|0|0''
   \<and> 1030000 - 1000000 \<ge> forcedRefreshMs
   \<and> \<not> 1010000 - 1000000 \<ge> forcedRefreshMs
   \<and> snd (syncStep codeUnitCompare
        (snapshotOf [sampleClient ''u1'' ''Ann'' ''2'' False False False False]) 1010000 True
        \<lparr> lastPublishedSignature = Some ''u1|Ann|2|unmuted|0|0'', lastPublishedAt = 1000000,
          lastClientIds = Some [''u1''], recentlyLeft = [],
          lastKnownNames = [(''u1'', ''Ann'')] \<rparr>) = Skipped"
  using publish_decision[OF sample_rounds(3)] publish_decision[OF sample_rounds(2)]
    publish_decision[OF sample_rounds(1)] sample_rounds
  by (simp add: forcedRefreshMs_def)





text \<open>
  Twenty-nine minutes after two departures both records are still there; thirty-one
  minutes after, both are gone; when one of the two is back after a minute, only the other
  record is left; when the client of the round before is gone after a minute, it has a
  record of that time.
\<close>

lemma sample_departures:
  "recentlyLeft (fst (syncStep codeUnitCompare
     (snapshotOf [sampleClient ''u2'' ''Bob'' ''1'' False False False False]) (29 * 60 * 1000) True
     trackerDeparted))
   = [(''u1'', \<lparr> leftName = ''Ann'', leftAt = 0 \<rparr>), (''u3'', \<lparr> leftName = ''Cid'', leftAt = 0 \<rparr>)]"
  "recentlyLeft (fst (syncStep codeUnitCompare
     (snapshotOf [sampleClient ''u2'' ''Bob'' ''1'' False False False False]) (31 * 60 * 1000) True
     trackerDeparted))
   = []"
  "recentlyLeft (fst (syncStep codeUnitCompare
     (snapshotOf [sampleClient ''u2'' ''Bob'' ''1'' False False False False,
                  sampleClient ''u1'' ''Ann'' ''1'' False False False False]) (60 * 1000) True
     trackerDeparted))
   = [(''u3'', \<lparr> leftName = ''Cid'', leftAt = 0 \<rparr>)]"
  "recentlyLeft (fst (syncStep codeUnitCompare (snapshotOf []) (60 * 1000) True trackerDeparted))
   = [(''u1'', \<lparr> leftName = ''Ann'', leftAt = 0 \<rparr>), (''u3'', \<lparr> leftName = ''Cid'', leftAt = 0 \<rparr>),
      (''u2'', \<lparr> leftName = ''Bob'', leftAt = 60 * 1000 \<rparr>)]"
  by (simp_all add: eval_sync)


end
